theory Spec2Isabelle
  imports Complex_Main "HOL-Library.Sublist"
begin

section \<open>Python values and the world outside the program\<close>

text \<open>
  The program is \<^verbatim>\<open>gerrit_repository_compare_requests.py\<close>. Its strings are Python
  \<^verbatim>\<open>str\<close> values; a HOL \<^typ>\<open>char\<close> stands for a code point below 256, so
  \<^typ>\<open>string\<close> covers the Latin-1 part of \<^verbatim>\<open>str\<close>. The value \<^verbatim>\<open>json.loads\<close>
  returns is a \<open>json\<close>; a dictionary is an association list in insertion order (its
  keys are distinct in Python; nothing below depends on that).
\<close>

datatype json =
    JNull
  | JBool bool
  | JInt int
  | JFloat rat
  | JStr string
  | JArr "json list"
  | JObj "(string \<times> json) list"

text \<open>
  The exceptions that can reach the handlers of the program. \<open>HTTPError\<close> is
  \<^verbatim>\<open>requests.HTTPError\<close>; \<open>RequestException\<close> is any other exception of
  \<^verbatim>\<open>requests\<close> (connection failure, timeout); both carry their message, as does
  \<open>RuntimeError\<close>. The last three are raised by the interpreter on an ill-typed value.
\<close>

datatype py_error =
    HTTPError string
  | RequestException string
  | RuntimeError string
  | AttributeError
  | TypeError
  | KeyError

record response =
  status_code :: nat
  resp_text :: string

datatype http_reply = Raises string | Returns response

text \<open>
  What the program does not define itself is a parameter: the server's reply to a GET
  (\<open>session.get\<close>, with the session's credentials and timeout), the message
  \<^verbatim>\<open>raise_for_status\<close> builds, the parser \<^verbatim>\<open>json.loads\<close> (\<open>Inl\<close> carries the text of
  its \<^verbatim>\<open>JSONDecodeError\<close>), Python's \<^verbatim>\<open>str()\<close> of a value that is not a string, and
  the message of an exception the interpreter raises.
\<close>

record env =
  http_get :: "string \<Rightarrow> http_reply"
  http_error_msg :: "response \<Rightarrow> string"
  json_loads :: "string \<Rightarrow> string + json"
  str_value :: "json \<Rightarrow> string"
  builtin_msg :: "py_error \<Rightarrow> string"

abbreviation NL :: string where
  "NL \<equiv> [CHR 0x0A]"

definition ebind :: "'e + 'a \<Rightarrow> ('a \<Rightarrow> 'e + 'b) \<Rightarrow> 'e + 'b" where
  \<comment> \<open>sequencing: an exception of the first computation skips the second\<close>
  "ebind m f = (case m of Inl e \<Rightarrow> Inl e | Inr x \<Rightarrow> f x)"

definition py_str :: "env \<Rightarrow> json \<Rightarrow> string" where
  \<comment> \<open>\<^verbatim>\<open>str(v)\<close>, as an f-string applies it\<close>
  "py_str env v = (case v of JStr s \<Rightarrow> s | _ \<Rightarrow> str_value env v)"

definition str_exc :: "env \<Rightarrow> py_error \<Rightarrow> string" where
  \<comment> \<open>\<^verbatim>\<open>str(e)\<close> of a caught exception\<close>
  "str_exc env e =
     (case e of HTTPError m \<Rightarrow> m | RequestException m \<Rightarrow> m | RuntimeError m \<Rightarrow> m
      | _ \<Rightarrow> builtin_msg env e)"

fun truthy :: "json \<Rightarrow> bool" where
  "truthy JNull = False"
| "truthy (JBool b) = b"
| "truthy (JInt i) = (i \<noteq> 0)"
| "truthy (JFloat r) = (r \<noteq> 0)"
| "truthy (JStr s) = (s \<noteq> [])"
| "truthy (JArr xs) = (xs \<noteq> [])"
| "truthy (JObj kvs) = (kvs \<noteq> [])"

fun py_iter :: "json \<Rightarrow> py_error + json list" where
  \<comment> \<open>the items a \<^verbatim>\<open>for\<close> loop sees: elements, keys, or one-character strings\<close>
  "py_iter (JArr xs) = Inr xs"
| "py_iter (JObj kvs) = Inr (map (\<lambda>kv. JStr (fst kv)) kvs)"
| "py_iter (JStr s) = Inr (map (\<lambda>c. JStr [c]) s)"
| "py_iter _ = Inl TypeError"

fun py_in :: "string \<Rightarrow> json \<Rightarrow> py_error + bool" where
  \<comment> \<open>\<^verbatim>\<open>key in v\<close> for a string key: key test, element test, or substring test\<close>
  "py_in key (JObj kvs) = Inr (key \<in> set (map fst kvs))"
| "py_in key (JArr xs) = Inr (JStr key \<in> set xs)"
| "py_in key (JStr s) = Inr (sublist key s)"
| "py_in key _ = Inl TypeError"

fun py_getitem :: "json \<Rightarrow> string \<Rightarrow> py_error + json" where
  \<comment> \<open>\<^verbatim>\<open>v[key]\<close> for a string key\<close>
  "py_getitem (JObj kvs) key = (case map_of kvs key of None \<Rightarrow> Inl KeyError | Some v \<Rightarrow> Inr v)"
| "py_getitem _ key = Inl TypeError"

definition slice_bound :: "nat \<Rightarrow> int \<Rightarrow> nat" where
  \<comment> \<open>a slice index clamped into \<open>0..n\<close>, a negative one counted from the end\<close>
  "slice_bound n i = (if i < 0 then nat (int n + i) else min (nat i) n)"

definition slice_list :: "'a list \<Rightarrow> int option \<Rightarrow> int option \<Rightarrow> 'a list" where
  "slice_list xs start stop =
     (let n = length xs;
          lo = (case start of None \<Rightarrow> 0 | Some i \<Rightarrow> slice_bound n i);
          hi = (case stop of None \<Rightarrow> n | Some j \<Rightarrow> slice_bound n j)
      in take (hi - lo) (drop lo xs))"

fun py_slice :: "json \<Rightarrow> int option \<Rightarrow> int option \<Rightarrow> py_error + json" where
  \<comment> \<open>\<^verbatim>\<open>v[start:stop]\<close>; slicing a dictionary raises (\<^verbatim>\<open>KeyError\<close> from Python 3.12 on)\<close>
  "py_slice (JArr xs) start stop = Inr (JArr (slice_list xs start stop))"
| "py_slice (JStr s) start stop = Inr (JStr (slice_list s start stop))"
| "py_slice _ start stop = Inl TypeError"

fun dict_get :: "json \<Rightarrow> string \<Rightarrow> json \<Rightarrow> py_error + json" where
  \<comment> \<open>\<^verbatim>\<open>v.get(key, default)\<close>\<close>
  "dict_get (JObj kvs) key dflt = Inr (case map_of kvs key of None \<Rightarrow> dflt | Some v \<Rightarrow> v)"
| "dict_get _ key dflt = Inl AttributeError"

fun dict_keys :: "json \<Rightarrow> py_error + string list" where
  \<comment> \<open>\<^verbatim>\<open>v.keys()\<close>\<close>
  "dict_keys (JObj kvs) = Inr (map fst kvs)"
| "dict_keys _ = Inl AttributeError"

section \<open>Stripping Gerrit's response framing\<close>

definition gerrit_prefix :: string where
  "gerrit_prefix = [CHR '')'', CHR '']'', CHR ''}'', CHR 0x27]"

definition split_once :: "char \<Rightarrow> string \<Rightarrow> string list" where
  \<comment> \<open>\<^verbatim>\<open>text.split(sep, 1)\<close> for a separator of one character\<close>
  "split_once sep s =
     (if sep \<in> set s
      then [takeWhile (\<lambda>c. c \<noteq> sep) s, tl (dropWhile (\<lambda>c. c \<noteq> sep) s)]
      else [s])"

definition strip_gerrit_json :: "string \<Rightarrow> string" where
  "strip_gerrit_json txt =
     (if prefix gerrit_prefix txt
      then (if CHR 0x0A \<in> set txt then split_once (CHR 0x0A) txt ! 1 else [])
      else txt)"

section \<open>The extension denylist\<close>

fun rfind_from :: "char \<Rightarrow> string \<Rightarrow> int \<Rightarrow> int \<Rightarrow> int" where
  "rfind_from c [] i found = found"
| "rfind_from c (x # xs) i found = rfind_from c xs (i + 1) (if x = c then i else found)"

definition rfind :: "char \<Rightarrow> string \<Rightarrow> int" where
  \<comment> \<open>\<^verbatim>\<open>p.rfind(c)\<close>: the last index of \<open>c\<close>, or \<open>-1\<close>\<close>
  "rfind c p = rfind_from c p 0 (- 1)"

function has_non_dot :: "string \<Rightarrow> nat \<Rightarrow> nat \<Rightarrow> bool" where
  \<comment> \<open>the \<^verbatim>\<open>while filenameIndex < dotIndex\<close> loop of \<^verbatim>\<open>splitext\<close>, which skips leading dots\<close>
  "has_non_dot p filenameIndex dotIndex =
     (if filenameIndex < dotIndex
      then (if p ! filenameIndex \<noteq> CHR ''.'' then True
            else has_non_dot p (filenameIndex + 1) dotIndex)
      else False)"
  by pat_completeness auto
termination
  by (relation "measure (\<lambda>(p, i, d). d - i)") auto

definition splitext :: "string \<Rightarrow> string \<times> string" where
  \<comment> \<open>\<^verbatim>\<open>os.path.splitext\<close> of \<^verbatim>\<open>posixpath\<close> (separator \<^verbatim>\<open>/\<close>)\<close>
  "splitext p =
     (let sepIndex = rfind (CHR ''/'') p; dotIndex = rfind (CHR ''.'') p
      in if dotIndex > sepIndex \<and> has_non_dot p (nat (sepIndex + 1)) (nat dotIndex)
         then (take (nat dotIndex) p, drop (nat dotIndex) p)
         else (p, []))"

definition lower_char :: "char \<Rightarrow> char" where
  \<comment> \<open>\<^verbatim>\<open>str.lower\<close> on a code point below 256: A-Z, and the Latin-1 capitals but the
      multiplication sign\<close>
  "lower_char c =
     (let n = (of_char c :: nat)
      in if (65 \<le> n \<and> n \<le> 90) \<or> (192 \<le> n \<and> n \<le> 222 \<and> n \<noteq> 215)
         then char_of (n + 32) else c)"

definition lower :: "string \<Rightarrow> string" where
  "lower s = map lower_char s"

definition ext_list :: "string set" where
  "ext_list = {''.so'', ''.a'', ''.md'', ''.png'', ''.jpg'', ''.jpeg'', ''.gif'', ''.zip'',
               ''.tar'', ''.gz'', ''.bz2''}"

definition is_ignored_file :: "string \<Rightarrow> bool" where
  "is_ignored_file path = (case splitext path of (_, ext) \<Rightarrow> lower ext \<in> ext_list)"

section \<open>Percent-encoding of a file path\<close>

definition always_safe :: "char \<Rightarrow> bool" where
  "always_safe c \<longleftrightarrow>
     c \<in> set ''ABCDEFGHIJKLMNOPQRSTUVWXYZabcdefghijklmnopqrstuvwxyz0123456789_.-~''"

definition hex_digit :: "nat \<Rightarrow> char" where
  "hex_digit d = ''0123456789ABCDEF'' ! d"

definition utf8_bytes :: "char \<Rightarrow> nat list" where
  \<comment> \<open>the UTF-8 encoding of a code point below 256\<close>
  "utf8_bytes c =
     (let n = (of_char c :: nat)
      in if n < 128 then [n] else [192 + n div 64, 128 + n mod 64])"

definition quote_byte :: "nat \<Rightarrow> string" where
  "quote_byte b =
     (if b < 128 \<and> always_safe (char_of b) then [char_of b]
      else [CHR ''%'', hex_digit (b div 16), hex_digit (b mod 16)])"

definition quote :: "string \<Rightarrow> string" where
  \<comment> \<open>\<^verbatim>\<open>urllib.parse.quote(s, safe="")\<close>\<close>
  "quote s = concat (map quote_byte (concat (map utf8_bytes s)))"

section \<open>Rendering one diff\<close>

definition format_compare :: "env \<Rightarrow> json \<Rightarrow> string \<Rightarrow> py_error + string" where
  "format_compare env lines pfx =
     ebind (py_iter lines) (\<lambda>ls. Inr (concat (map (\<lambda>line. pfx @ py_str env line @ NL) ls)))"

definition emit :: "env \<Rightarrow> json \<Rightarrow> string \<Rightarrow> string \<Rightarrow> py_error + string" where
  \<comment> \<open>\<^verbatim>\<open>output += format_compare(lines, prefix)\<close>\<close>
  "emit env lines pfx output = ebind (format_compare env lines pfx) (\<lambda>s. Inr (output @ s))"

definition block_lines :: "json \<Rightarrow> string \<Rightarrow> int option \<Rightarrow> int option \<Rightarrow> py_error + json" where
  \<comment> \<open>\<^verbatim>\<open>block[key][start:stop]\<close>\<close>
  "block_lines block key start stop =
     ebind (py_getitem block key) (\<lambda>v. py_slice v start stop)"

definition render_block :: "env \<Rightarrow> nat \<Rightarrow> nat \<Rightarrow> json \<Rightarrow> string \<Rightarrow> py_error + string" where
  \<comment> \<open>the body of the loop over \<^verbatim>\<open>enumerate(diff_info)\<close>; \<open>n\<close> is \<^verbatim>\<open>len(diff_info)\<close>\<close>
  "render_block env n i block output =
     ebind (py_in ''ab'' block) (\<lambda>has_ab.
       if has_ab then
         (if i = 0 then
            ebind (block_lines block ''ab'' (Some (- 4)) None) (\<lambda>ls. emit env ls [] output)
          else if int i = int n - 1 then
            ebind (block_lines block ''ab'' (Some 0) (Some 4)) (\<lambda>ls. emit env ls [] output)
          else
            ebind (block_lines block ''ab'' (Some 0) (Some 4)) (\<lambda>ls.
            ebind (emit env ls [] output) (\<lambda>output1.
            ebind (block_lines block ''ab'' (Some (- 4)) None) (\<lambda>ls'.
            emit env ls' [] output1))))
       else
         ebind (py_in ''a'' block) (\<lambda>has_a.
         ebind (if has_a then py_in ''b'' block else Inr False) (\<lambda>has_a_and_b.
           if has_a_and_b then
             ebind (py_getitem block ''a'') (\<lambda>a.
             ebind (emit env a ''-'' output) (\<lambda>output1.
             ebind (py_getitem block ''b'') (\<lambda>b.
             emit env b ''+'' output1)))
           else if has_a then
             ebind (py_getitem block ''a'') (\<lambda>a. emit env a ''-'' output)
           else
             ebind (py_in ''b'' block) (\<lambda>has_b.
               if has_b then ebind (py_getitem block ''b'') (\<lambda>b. emit env b ''+'' output)
               else Inr output))))"

fun compare_loop :: "env \<Rightarrow> nat \<Rightarrow> nat \<Rightarrow> json list \<Rightarrow> string \<Rightarrow> py_error + string" where
  "compare_loop env n i [] output = Inr output"
| "compare_loop env n i (block # rest) output =
     ebind (render_block env n i block output) (compare_loop env n (Suc i) rest)"

definition repository_compare :: "env \<Rightarrow> json \<Rightarrow> py_error + string" where
  "repository_compare env diff_json =
     ebind (dict_get diff_json ''content'' (JArr [])) (\<lambda>diff_info.
     ebind (py_iter diff_info) (\<lambda>blocks.
     ebind (compare_loop env (length blocks) 0 blocks []) (\<lambda>output.
     Inr (output @ NL @ NL @ NL))))"

section \<open>Fetching\<close>

text \<open>
  Every request is appended to a log (\<open>reqs\<close>), so that what is requested, and in which order, is
  part of the result of a run.
\<close>

definition raise_for_status :: "env \<Rightarrow> response \<Rightarrow> py_error + unit" where
  "raise_for_status env resp =
     (if 400 \<le> status_code resp \<and> status_code resp < 600
      then Inl (HTTPError (http_error_msg env resp)) else Inr ())"

definition session_get :: "env \<Rightarrow> string \<Rightarrow> string list \<Rightarrow> (py_error + response) \<times> string list" where
  "session_get env u reqs =
     (case http_get env u of Raises m \<Rightarrow> Inl (RequestException m) | Returns resp \<Rightarrow> Inr resp,
      reqs @ [u])"

definition decode :: "env \<Rightarrow> string \<Rightarrow> response \<Rightarrow> py_error + json" where
  \<comment> \<open>\<^verbatim>\<open>json.loads(strip_gerrit_json(resp.text))\<close> in its \<^verbatim>\<open>try\<close>; \<open>what\<close> starts the
      message of the \<^verbatim>\<open>RuntimeError\<close>\<close>
  "decode env what resp =
     (case json_loads env (strip_gerrit_json (resp_text resp)) of
        Inl e \<Rightarrow> Inl (RuntimeError (what @ e @ NL @ ''Raw: '' @ take 200 (resp_text resp)))
      | Inr v \<Rightarrow> Inr v)"

definition get_json :: "env \<Rightarrow> string \<Rightarrow> string \<Rightarrow> string list \<Rightarrow> (py_error + json) \<times> string list" where
  \<comment> \<open>the three steps the program repeats for each URL: GET, \<^verbatim>\<open>raise_for_status\<close>, decode\<close>
  "get_json env u what reqs =
     (case session_get env u reqs of
        (Inl e, reqs') \<Rightarrow> (Inl e, reqs')
      | (Inr resp, reqs') \<Rightarrow>
          (ebind (raise_for_status env resp) (\<lambda>_. decode env what resp), reqs'))"

section \<open>One file, and the whole run\<close>

definition header :: "string \<Rightarrow> string" where
  "header file_path = ''======== file: '' @ file_path @ NL @ NL"

definition path_url :: "string \<Rightarrow> string \<Rightarrow> string" where
  "path_url file_url file_path = file_url @ ''/'' @ quote file_path @ ''/diff''"

definition make_message ::
  "env \<Rightarrow> string \<Rightarrow> string \<Rightarrow> string list \<Rightarrow> (py_error + string) \<times> string list" where
  "make_message env file_url file_path reqs =
     (if is_ignored_file file_path then (Inr [], reqs)
      else
        (case get_json env (path_url file_url file_path)
                (''Decode diff for '' @ file_path @ '' failed: '') reqs of
           (Inl e, reqs') \<Rightarrow> (Inl e, reqs')
         | (Inr return_data, reqs') \<Rightarrow>
             (ebind (repository_compare env return_data) (\<lambda>rendered.
                Inr (header file_path @ rendered)), reqs')))"

fun results_loop ::
  "env \<Rightarrow> string \<Rightarrow> string list \<Rightarrow> string list \<Rightarrow> string list \<Rightarrow> string list \<times> string list" where
  "results_loop env file_url [] results reqs = (results, reqs)"
| "results_loop env file_url (file_path # rest) results reqs =
     (case make_message env file_url file_path reqs of
        (Inr msg, reqs') \<Rightarrow>
          results_loop env file_url rest (if msg \<noteq> [] then results @ [msg] else results) reqs'
      | (Inl (HTTPError m), reqs') \<Rightarrow>
          results_loop env file_url rest
            (results @ [header file_path @ ''[HTTP error] '' @ m @ NL @ NL]) reqs'
      | (Inl e, reqs') \<Rightarrow>
          results_loop env file_url rest
            (results @ [header file_path @ ''[Error] '' @ str_exc env e @ NL @ NL]) reqs')"

definition special_keys :: "string set" where
  "special_keys = {''/COMMIT_MSG'', ''/MERGE_LIST''}"

definition change_url :: "string \<Rightarrow> string \<Rightarrow> string" where
  "change_url base_url change_id = base_url @ ''/a/changes/'' @ change_id @ ''?o=CURRENT_REVISION''"

definition file_url :: "env \<Rightarrow> string \<Rightarrow> string \<Rightarrow> json \<Rightarrow> string" where
  "file_url env base_url change_id revision_id =
     base_url @ ''/a/changes/'' @ change_id @ ''/revisions/'' @ py_str env revision_id @ ''/files''"

definition Repository_Compare ::
  "env \<Rightarrow> string \<Rightarrow> string \<Rightarrow> (py_error + string list) \<times> string list" where
  "Repository_Compare env base_url change_id =
     (case get_json env (change_url base_url change_id) ''Decode change response failed: '' [] of
        (Inl e, reqs1) \<Rightarrow> (Inl e, reqs1)
      | (Inr change_data, reqs1) \<Rightarrow>
          (case dict_get change_data ''current_revision'' JNull of
             Inl e \<Rightarrow> (Inl e, reqs1)
           | Inr revision_id \<Rightarrow>
               if \<not> truthy revision_id
               then (Inl (RuntimeError
                      ''No current_revision found. Check change_id or permissions.''), reqs1)
               else
                 (case get_json env (file_url env base_url change_id revision_id)
                         ''Decode files response failed: '' reqs1 of
                    (Inl e, reqs2) \<Rightarrow> (Inl e, reqs2)
                  | (Inr file_data, reqs2) \<Rightarrow>
                      (case dict_keys file_data of
                         Inl e \<Rightarrow> (Inl e, reqs2)
                       | Inr keys \<Rightarrow>
                           (case results_loop env
                                   (file_url env base_url change_id revision_id)
                                   (filter (\<lambda>k. k \<notin> special_keys) keys) [] reqs2 of
                              (results, reqs3) \<Rightarrow> (Inr results, reqs3))))))"

section \<open>Notions used to state the properties\<close>

definition text_lines :: "env \<Rightarrow> string \<Rightarrow> json list \<Rightarrow> string" where
  \<comment> \<open>the lines one after the other, each behind the prefix and ended by a newline\<close>
  "text_lines env pfx ls = concat (map (\<lambda>line. pfx @ py_str env line @ NL) ls)"

fun is_lines :: "json \<Rightarrow> bool" where
  "is_lines (JArr ls) = True"
| "is_lines _ = False"

fun wf_block :: "json \<Rightarrow> bool" where
  \<comment> \<open>a block of Gerrit's diff content: a dictionary whose \<open>ab\<close> entry, or else whose
      \<open>a\<close> and \<open>b\<close> entries, are lists\<close>
  "wf_block (JObj kvs) =
     (case map_of kvs ''ab'' of
        Some v \<Rightarrow> is_lines v
      | None \<Rightarrow>
          (\<forall>key \<in> {''a'', ''b''}. case map_of kvs key of None \<Rightarrow> True | Some v \<Rightarrow> is_lines v))"
| "wf_block _ = False"

definition lines_of :: "(string \<times> json) list \<Rightarrow> string \<Rightarrow> json list" where
  \<comment> \<open>the list under a key, empty when the key is absent\<close>
  "lines_of kvs key = (case map_of kvs key of Some (JArr ls) \<Rightarrow> ls | _ \<Rightarrow> [])"

definition piece :: "env \<Rightarrow> nat \<Rightarrow> nat \<Rightarrow> json \<Rightarrow> string" where
  \<comment> \<open>what the specification says block \<open>i\<close> of \<open>n\<close> contributes to the rendering\<close>
  "piece env n i block =
     (case block of
        JObj kvs \<Rightarrow>
          (case map_of kvs ''ab'' of
             Some v \<Rightarrow>
               (case v of
                  JArr ls \<Rightarrow>
                    (if i = 0 then text_lines env [] (drop (length ls - 4) ls)
                     else if i = n - 1 then text_lines env [] (take 4 ls)
                     else text_lines env [] (take 4 ls) @
                          text_lines env [] (drop (length ls - 4) ls))
                | _ \<Rightarrow> [])
           | None \<Rightarrow>
               text_lines env ''-'' (lines_of kvs ''a'') @ text_lines env ''+'' (lines_of kvs ''b''))
      | _ \<Rightarrow> [])"

definition fetches :: "env \<Rightarrow> string \<Rightarrow> json \<Rightarrow> bool" where
  \<comment> \<open>the GET of \<open>u\<close> returns, its status is no error status, and its body decodes to \<open>v\<close>\<close>
  "fetches env u v =
     (case http_get env u of
        Raises m \<Rightarrow> False
      | Returns resp \<Rightarrow>
          \<not> (400 \<le> status_code resp \<and> status_code resp < 600) \<and>
          json_loads env (strip_gerrit_json (resp_text resp)) = Inr v)"

definition alone :: "env \<Rightarrow> string \<Rightarrow> string \<Rightarrow> string list" where
  \<comment> \<open>what the loop appends to the results for one file: the run of the loop on that file
      only, from empty results\<close>
  "alone env furl file_path = fst (results_loop env furl [file_path] [] [])"

definition enc :: "char \<Rightarrow> string" where
  \<comment> \<open>the percent-encoding of one character\<close>
  "enc c = concat (map quote_byte (utf8_bytes c))"

section \<open>A small server, for concrete runs\<close>

definition demo_blocks :: "json list" where
  "demo_blocks =
     [JObj [(''ab'', JArr [JStr ''c1'', JStr ''c2'', JStr ''c3'', JStr ''c4'', JStr ''c5''])],
      JObj [(''a'', JArr [JStr ''old'']), (''b'', JArr [JStr ''new1'', JStr ''new2''])],
      JObj [(''ab'', JArr [JStr ''m1'', JStr ''m2'', JStr ''m3''])],
      JObj [(''b'', JArr [JStr ''added''])],
      JObj [(''ab'', JArr [JStr ''t1'', JStr ''t2'', JStr ''t3'', JStr ''t4'', JStr ''t5''])]]"

definition demo_diff :: json where
  "demo_diff = JObj [(''content'', JArr demo_blocks)]"

definition demo_change :: "(string \<times> json) list" where
  "demo_change = [(''id'', JStr ''p~main~I42''), (''current_revision'', JStr ''r1'')]"

definition demo_files :: "(string \<times> json) list" where
  "demo_files =
     [(''/COMMIT_MSG'', JObj []), (''src/main.c'', JObj []), (''README.md'', JObj []),
      (''gone.c'', JObj []), (''bad.c'', JObj [])]"

definition demo_env :: env where
  "demo_env =
     \<lparr> http_get = (\<lambda>u.
         if u = ''g/a/changes/42?o=CURRENT_REVISION''
           then Returns \<lparr>status_code = 200, resp_text = gerrit_prefix @ NL @ ''change''\<rparr>
         else if u = ''g/a/changes/42/revisions/r1/files''
           then Returns \<lparr>status_code = 200, resp_text = gerrit_prefix @ NL @ ''files''\<rparr>
         else if u = ''g/a/changes/42/revisions/r1/files/src%2Fmain.c/diff''
           then Returns \<lparr>status_code = 200, resp_text = gerrit_prefix @ NL @ ''diff''\<rparr>
         else if u = ''g/a/changes/42/revisions/r1/files/gone.c/diff''
           then Returns \<lparr>status_code = 404, resp_text = ''Not found''\<rparr>
         else if u = ''g/a/changes/42/revisions/r1/files/bad.c/diff''
           then Returns \<lparr>status_code = 200, resp_text = ''<html>''\<rparr>
         else Raises ''refused''),
       http_error_msg = (\<lambda>resp. ''404 Client Error''),
       json_loads = (\<lambda>s.
         if s = ''change'' then Inr (JObj demo_change)
         else if s = ''files'' then Inr (JObj demo_files)
         else if s = ''diff'' then Inr demo_diff
         else Inl ''Expecting value''),
       str_value = (\<lambda>v. ''?''),
       builtin_msg = (\<lambda>e. ''error'') \<rparr>"

definition single_block_diff :: json where
  \<comment> \<open>a diff whose content is one unchanged block of five lines\<close>
  "single_block_diff =
     JObj [(''content'',
            JArr [JObj [(''ab'', JArr [JStr ''1'', JStr ''2'', JStr ''3'', JStr ''4'', JStr ''5''])]])]"

definition demo_results :: "string list" where
  "demo_results =
     [''======== file: src/main.c\<newline>\<newline>c2\<newline>c3\<newline>c4\<newline>c5\<newline>-old\<newline>+new1\<newline>+new2\<newline>m1\<newline>m2\<newline>m3\<newline>m1\<newline>m2\<newline>m3\<newline>+added\<newline>t1\<newline>t2\<newline>t3\<newline>t4\<newline>\<newline>\<newline>\<newline>'',
      ''======== file: gone.c\<newline>\<newline>[HTTP error] 404 Client Error\<newline>\<newline>'',
      ''======== file: bad.c\<newline>\<newline>[Error] Decode diff for bad.c failed: Expecting value\<newline>Raw: <html>\<newline>\<newline>'']"

definition demo_requests :: "string list" where
  "demo_requests =
     [''g/a/changes/42?o=CURRENT_REVISION'',
      ''g/a/changes/42/revisions/r1/files'',
      ''g/a/changes/42/revisions/r1/files/src%2Fmain.c/diff'',
      ''g/a/changes/42/revisions/r1/files/gone.c/diff'',
      ''g/a/changes/42/revisions/r1/files/bad.c/diff'']"

section \<open>Auxiliary facts: rendering\<close>

lemma slice_last4: "slice_list xs (Some (- 4)) None = drop (length xs - 4) xs"
  by (simp add: slice_list_def slice_bound_def nat_diff_distrib')

lemma slice_first4: "slice_list xs (Some 0) (Some 4) = take 4 xs"
  by (cases "4 \<le> length xs") (simp_all add: slice_list_def slice_bound_def min_def)

lemma emit_lines: "emit env (JArr ls) pfx output = Inr (output @ text_lines env pfx ls)"
  by (simp add: emit_def format_compare_def ebind_def text_lines_def)

lemma map_of_in_keys: "map_of kvs k = Some v \<Longrightarrow> k \<in> fst ` set kvs"
  by (metis domI dom_map_of_conv_image_fst)

lemma py_in_obj: "py_in key (JObj kvs) = Inr (map_of kvs key \<noteq> None)"
  by (simp add: map_of_eq_None_iff)

lemma render_block_ab:
  assumes "map_of kvs ''ab'' = Some (JArr ls)"
  shows "render_block env n i (JObj kvs) output = Inr (output @ piece env n i (JObj kvs))"
proof -
  have n1: "(int i = int n - 1) = (i = n - 1)" if "i \<noteq> 0"
    using that by auto
  show ?thesis
    unfolding render_block_def py_in_obj
    using assms n1
    by (simp add: ebind_def block_lines_def slice_last4 slice_first4 emit_lines piece_def)
qed

lemma is_lines_iff: "is_lines v \<longleftrightarrow> (\<exists>ls. v = JArr ls)"
  by (cases v) simp_all

lemma render_block_changed:
  assumes ab: "map_of kvs ''ab'' = None" and wf: "wf_block (JObj kvs)"
  shows "render_block env n i (JObj kvs) output = Inr (output @ piece env n i (JObj kvs))"
proof -
  have wa: "map_of kvs ''a'' = Some v \<Longrightarrow> \<exists>ls. v = JArr ls" for v
    using wf ab by (simp add: is_lines_iff)
  have wb: "map_of kvs ''b'' = Some v \<Longrightarrow> \<exists>ls. v = JArr ls" for v
    using wf ab by (simp add: is_lines_iff)
  show ?thesis
  proof (cases "map_of kvs ''a''")
    case aN: None
    show ?thesis
    proof (cases "map_of kvs ''b''")
      case None
      with aN ab show ?thesis
        unfolding render_block_def py_in_obj
        by (simp add: ebind_def piece_def lines_of_def text_lines_def)
    next
      case (Some v)
      then obtain ls where "v = JArr ls" using wb by blast
      with Some aN ab show ?thesis
        unfolding render_block_def py_in_obj
        by (simp add: ebind_def piece_def lines_of_def emit_lines) (simp add: text_lines_def)
    qed
  next
    case aS: (Some u)
    then obtain as where u: "u = JArr as" using wa by blast
    show ?thesis
    proof (cases "map_of kvs ''b''")
      case None
      with aS u ab show ?thesis
        unfolding render_block_def py_in_obj
        by (simp add: ebind_def piece_def lines_of_def emit_lines) (simp add: text_lines_def)
    next
      case (Some v)
      then obtain ls where "v = JArr ls" using wb by blast
      with Some aS u ab show ?thesis
        unfolding render_block_def py_in_obj
        by (simp add: ebind_def piece_def lines_of_def emit_lines)
    qed
  qed
qed

lemma render_block_wf:
  assumes "wf_block block"
  shows "render_block env n i block output = Inr (output @ piece env n i block)"
proof (cases block)
  case (JObj kvs)
  show ?thesis
  proof (cases "map_of kvs ''ab''")
    case None
    with assms JObj show ?thesis by (simp only: render_block_changed)
  next
    case (Some v)
    with assms JObj obtain ls where "v = JArr ls" by (auto simp: is_lines_iff)
    with Some JObj show ?thesis by (simp only: render_block_ab)
  qed
qed (use assms in simp_all)

lemma compare_loop_wf:
  assumes "\<forall>b \<in> set blocks. wf_block b"
  shows "compare_loop env n i blocks out =
           Inr (out @ concat (map (\<lambda>(j, b). piece env n j b) (zip [i..<i + length blocks] blocks)))"
  using assms
proof (induction blocks arbitrary: i out)
  case Nil
  then show ?case by simp
next
  case (Cons b bs)
  have "[i..<i + length (b # bs)] = i # [Suc i..<Suc i + length bs]"
    by (simp add: upt_rec[of i] del: upt_Suc)
  with Cons show ?case
    by (simp add: render_block_wf ebind_def)
qed

lemma ebind_InrE:
  assumes "ebind m f = Inr r"
  obtains x where "m = Inr x" "f x = Inr r"
  using assms by (cases m) (simp_all add: ebind_def)

lemma emit_Inr: "emit env x pfx out = Inr r \<Longrightarrow> \<exists>s. r = out @ s"
  by (auto simp: emit_def elim!: ebind_InrE)

lemma render_block_extends:
  assumes "render_block env n i block out = Inr r"
  shows "\<exists>p. r = out @ p"
  using assms unfolding render_block_def
  by (auto elim!: ebind_InrE dest!: emit_Inr split: if_splits)

lemma compare_loop_pieces:
  assumes "compare_loop env n i blocks out = Inr r"
  shows "\<exists>ps. length ps = length blocks \<and> r = out @ concat ps \<and>
           (\<forall>j<length blocks. \<exists>o'. render_block env n (i + j) (blocks ! j) o' = Inr (o' @ ps ! j))"
  using assms
proof (induction blocks arbitrary: i out)
  case Nil
  then show ?case by simp
next
  case (Cons b bs)
  from Cons.prems obtain o1 where
    1: "render_block env n i b out = Inr o1" and 2: "compare_loop env n (Suc i) bs o1 = Inr r"
    by (auto elim: ebind_InrE)
  from 1 obtain p where p: "o1 = out @ p" using render_block_extends by blast
  from Cons.IH[OF 2] obtain ps where
    ps: "length ps = length bs" "r = o1 @ concat ps"
      "\<forall>j<length bs. \<exists>o'. render_block env n (Suc i + j) (bs ! j) o' = Inr (o' @ ps ! j)"
    by blast
  have "\<exists>o'. render_block env n (i + j) ((b # bs) ! j) o' = Inr (o' @ (p # ps) ! j)"
    if "j < length (b # bs)" for j
  proof (cases j)
    case 0
    with 1 p show ?thesis by auto
  next
    case (Suc k)
    with that ps(3) show ?thesis by simp
  qed
  with ps(1,2) p show ?case
    by (intro exI[of _ "p # ps"]) simp
qed

lemma repository_compare_pieces:
  assumes "dict_get diff_json ''content'' (JArr []) = Inr (JArr blocks)"
    and "repository_compare env diff_json = Inr out"
  shows "\<exists>ps. length ps = length blocks \<and> out = concat ps @ NL @ NL @ NL \<and>
           (\<forall>j<length blocks.
              \<exists>o'. render_block env (length blocks) j (blocks ! j) o' = Inr (o' @ ps ! j))"
proof -
  from assms obtain r where r: "compare_loop env (length blocks) 0 blocks [] = Inr r"
    and o: "out = r @ NL @ NL @ NL"
    by (auto simp: repository_compare_def elim!: ebind_InrE)
  from compare_loop_pieces[OF r] o show ?thesis by simp
qed

section \<open>Auxiliary facts: percent-encoding is injective\<close>

lemma quote_Cons: "quote (c # s) = enc c @ quote s"
  by (simp add: quote_def enc_def)

lemma hex_digit_inj: "hex_digit a = hex_digit b \<Longrightarrow> a < 16 \<Longrightarrow> b < 16 \<Longrightarrow> a = b"
  unfolding hex_digit_def
  using nth_eq_iff_index_eq[of "''0123456789ABCDEF''" a b] by simp

lemma hex_digit_C: "hex_digit 12 = CHR ''C''"
  by (simp add: hex_digit_def)

lemma safe_not_percent: "always_safe c \<Longrightarrow> c \<noteq> CHR ''%''"
  by (auto simp: always_safe_def)

lemma enc_safe: "always_safe c \<Longrightarrow> (of_char c :: nat) < 128 \<Longrightarrow> enc c = [c]"
  by (simp add: enc_def utf8_bytes_def quote_byte_def)

lemma enc_unsafe:
  "\<not> always_safe c \<Longrightarrow> (of_char c :: nat) < 128 \<Longrightarrow>
     enc c = [CHR ''%'', hex_digit (of_char c div 16), hex_digit (of_char c mod 16)]"
  by (simp add: enc_def utf8_bytes_def quote_byte_def)

lemma div64_cases: "128 \<le> n \<Longrightarrow> n < 256 \<Longrightarrow> n div 64 = 2 \<or> n div (64::nat) = 3"
  by arith

lemma lead_byte_hi: "128 \<le> n \<Longrightarrow> n < 256 \<Longrightarrow> (192 + n div 64) div 16 = (12::nat)"
  using div64_cases[of n] by auto

lemma lead_byte_lo: "128 \<le> n \<Longrightarrow> n < 256 \<Longrightarrow> (192 + n div 64) mod 16 = n div (64::nat)"
  using div64_cases[of n] by auto

lemma cont_byte_hi: "(128 + n mod 64) div 16 = 8 + n mod 64 div (16::nat)"
  by simp

lemma cont_byte_lo: "(128 + n mod 64) mod 16 = n mod (16::nat)"
proof -
  have "(16 * 8 + n mod 64) mod 16 = (n mod 64) mod 16" by (rule mod_mult_self4)
  moreover have "(n mod 64) mod 16 = n mod 16" by (rule mod_mod_cancel) simp
  ultimately show ?thesis by simp
qed

lemma div_mod_eqI: "a div k = b div k \<Longrightarrow> a mod k = b mod k \<Longrightarrow> a = (b::nat)"
  by (metis div_mult_mod_eq)

lemma enc_high:
  assumes "\<not> (of_char c :: nat) < 128"
  shows "enc c = [CHR ''%'', CHR ''C'', hex_digit (of_char c div 64),
                  CHR ''%'', hex_digit (8 + of_char c mod 64 div 16), hex_digit (of_char c mod 16)]"
proof -
  define n where "n = (of_char c :: nat)"
  have n: "128 \<le> n" "n < 256" using assms nat_of_char_less_256[of c] by (simp_all add: n_def)
  have a: "(192 + n div 64) div 16 = 12" using n by (rule lead_byte_hi)
  have b: "(192 + n div 64) mod 16 = n div 64" using n by (rule lead_byte_lo)
  have "enc c = quote_byte (192 + n div 64) @ quote_byte (128 + n mod 64)"
    using assms by (simp add: enc_def utf8_bytes_def n_def Let_def)
  also have "quote_byte (192 + n div 64) = [CHR ''%'', CHR ''C'', hex_digit (n div 64)]"
    by (simp add: quote_byte_def a b hex_digit_C)
  also have "quote_byte (128 + n mod 64) =
      [CHR ''%'', hex_digit (8 + n mod 64 div 16), hex_digit (n mod 16)]"
    by (simp add: quote_byte_def cont_byte_hi cont_byte_lo)
  finally show ?thesis by (simp add: n_def)
qed

lemma safe_lt_128: "always_safe c \<Longrightarrow> (of_char c :: nat) < 128"
  by (auto simp: always_safe_def)

lemma enc_inj:
  assumes "enc c @ r = enc d @ r'"
  shows "c = d \<and> r = r'"
proof -
  define n where "n = (of_char c :: nat)"
  define m where "m = (of_char d :: nat)"
  have nm: "n < 256" "m < 256" by (simp_all add: n_def m_def)
  have eq: "n = m \<Longrightarrow> c = d" by (simp add: n_def m_def)
  consider (ss) "always_safe c" "always_safe d"
    | (su) "always_safe c" "\<not> always_safe d"
    | (us) "\<not> always_safe c" "always_safe d"
    | (ll) "\<not> always_safe c" "\<not> always_safe d" "n < 128" "m < 128"
    | (lh) "\<not> always_safe c" "\<not> always_safe d" "n < 128" "\<not> m < 128"
    | (hl) "\<not> always_safe c" "\<not> always_safe d" "\<not> n < 128" "m < 128"
    | (hh) "\<not> n < 128" "\<not> m < 128"
    using safe_lt_128 n_def m_def by blast
  then show ?thesis
  proof cases
    case ss
    with assms show ?thesis by (simp add: enc_safe safe_lt_128)
  next
    case su
    then have "enc d ! 0 = CHR ''%''"
      by (cases "m < 128") (simp_all add: enc_unsafe enc_high m_def)
    with su assms safe_not_percent[of c] show ?thesis
      by (cases "m < 128") (simp_all add: enc_safe safe_lt_128 enc_unsafe enc_high m_def)
  next
    case us
    with assms safe_not_percent[of d] show ?thesis
      by (cases "n < 128") (simp_all add: enc_safe safe_lt_128 enc_unsafe enc_high n_def)
  next
    case ll
    with assms have h: "hex_digit (n div 16) = hex_digit (m div 16)"
        "hex_digit (n mod 16) = hex_digit (m mod 16)" "r = r'"
      by (simp_all add: enc_unsafe n_def m_def)
    have "n div 16 = m div 16" by (rule hex_digit_inj[OF h(1)]) (use nm in simp_all)
    moreover have "n mod 16 = m mod 16" by (rule hex_digit_inj[OF h(2)]) simp_all
    ultimately have "n = m" by (metis div_mult_mod_eq)
    with h(3) eq show ?thesis by simp
  next
    case lh
    with assms have e: "hex_digit (n div 16) = hex_digit 12"
      by (simp add: enc_unsafe enc_high n_def m_def hex_digit_C)
    have "n div 16 = 12" by (rule hex_digit_inj[OF e]) (use lh(3) in simp_all)
    with lh(3) show ?thesis by simp
  next
    case hl
    with assms have e: "hex_digit (m div 16) = hex_digit 12"
      by (simp add: enc_unsafe enc_high n_def m_def hex_digit_C)
    have "m div 16 = 12" by (rule hex_digit_inj[OF e]) (use hl(4) in simp_all)
    with hl(4) show ?thesis by simp
  next
    case hh
    with assms have h: "hex_digit (n div 64) = hex_digit (m div 64)"
        "hex_digit (8 + n mod 64 div 16) = hex_digit (8 + m mod 64 div 16)"
        "hex_digit (n mod 16) = hex_digit (m mod 16)" "r = r'"
      by (simp_all add: enc_high n_def m_def)
    have 1: "n div 64 = m div 64" by (rule hex_digit_inj[OF h(1)]) (use nm in simp_all)
    have 2: "8 + n mod 64 div 16 = 8 + m mod 64 div 16"
      by (rule hex_digit_inj[OF h(2)]) (simp_all add: less_Suc_eq_le div_le_mono)
    have 3: "n mod 16 = m mod 16" by (rule hex_digit_inj[OF h(3)]) simp_all
    have "n mod 64 mod 16 = m mod 64 mod 16" using 3 by (simp add: mod_mod_cancel)
    with 2 have "n mod 64 = m mod 64" by (simp add: div_mod_eqI[of _ 16])
    with 1 have "n = m" by (rule div_mod_eqI[of _ 64])
    with h(4) eq show ?thesis by simp
  qed
qed

lemma quote_inj: "quote s = quote t \<Longrightarrow> s = t"
proof (induction s arbitrary: t)
  case Nil
  show ?case
  proof (cases t)
    case (Cons d t')
    have "enc d \<noteq> []"
      by (cases "always_safe d"; cases "(of_char d :: nat) < 128")
         (simp_all add: enc_safe enc_unsafe enc_high safe_lt_128)
    with Nil Cons show ?thesis by (simp add: quote_Cons) (simp add: quote_def)
  qed simp
next
  case (Cons c s)
  show ?case
  proof (cases t)
    case Nil
    have "enc c \<noteq> []"
      by (cases "always_safe c"; cases "(of_char c :: nat) < 128")
         (simp_all add: enc_safe enc_unsafe enc_high safe_lt_128)
    with Cons.prems Nil show ?thesis by (simp add: quote_Cons) (simp add: quote_def)
  next
    case (Cons d t')
    with Cons.prems have "enc c @ quote s = enc d @ quote t'" by (simp add: quote_Cons)
    then have "c = d \<and> quote s = quote t'" by (rule enc_inj)
    with Cons.IH Cons show ?thesis by simp
  qed
qed

section \<open>Auxiliary facts: fetching and the loop over the files\<close>

lemma get_json_reqs: "snd (get_json env u what reqs) = reqs @ [u]"
  by (simp add: get_json_def session_get_def split: http_reply.splits)

lemma get_json_fst: "fst (get_json env u what reqs) = fst (get_json env u what [])"
  by (simp add: get_json_def session_get_def split: http_reply.splits)

lemma get_json_fetches: "fetches env u v \<Longrightarrow> get_json env u what reqs = (Inr v, reqs @ [u])"
  by (auto simp: fetches_def get_json_def session_get_def raise_for_status_def decode_def ebind_def
      split: http_reply.splits)

lemma get_json_Inr:
  assumes "fst (get_json env u what reqs) = Inr v"
  shows "fetches env u v"
proof (cases "http_get env u")
  case (Raises m)
  with assms show ?thesis by (simp add: get_json_def session_get_def)
next
  case (Returns resp)
  with assms show ?thesis
    by (cases "json_loads env (strip_gerrit_json (resp_text resp))")
       (simp_all add: get_json_def session_get_def fetches_def raise_for_status_def decode_def
          ebind_def split: if_splits)
qed

lemma make_message_reqs:
  "snd (make_message env furl f reqs) = reqs @ (if is_ignored_file f then [] else [path_url furl f])"
proof (cases "is_ignored_file f")
  case True
  then show ?thesis by (simp add: make_message_def)
next
  case False
  define what where "what = ''Decode diff for '' @ f @ '' failed: ''"
  obtain r q where g: "get_json env (path_url furl f) what reqs = (r, q)"
    by (cases "get_json env (path_url furl f) what reqs")
  have "q = reqs @ [path_url furl f]"
    using get_json_reqs[of env "path_url furl f" what reqs] g by simp
  with False g[unfolded what_def] show ?thesis
    by (cases r) (simp_all add: make_message_def)
qed

lemma make_message_fst:
  "fst (make_message env furl f reqs) = fst (make_message env furl f [])"
proof (cases "is_ignored_file f")
  case True
  then show ?thesis by (simp add: make_message_def)
next
  case False
  define what where "what = ''Decode diff for '' @ f @ '' failed: ''"
  obtain r q where g: "get_json env (path_url furl f) what reqs = (r, q)"
    by (cases "get_json env (path_url furl f) what reqs")
  obtain r' q' where g': "get_json env (path_url furl f) what [] = (r', q')"
    by (cases "get_json env (path_url furl f) what []")
  have rr: "r = r'"
    using get_json_fst[of env "path_url furl f" what reqs] g g' by simp
  from False g[unfolded what_def rr] g'[unfolded what_def] show ?thesis
    by (cases r') (simp_all add: make_message_def)
qed

lemma make_message_split:
  "make_message env furl f reqs =
     (fst (make_message env furl f []),
      reqs @ (if is_ignored_file f then [] else [path_url furl f]))"
  using make_message_reqs[of env furl f reqs] make_message_fst[of env furl f reqs]
  by (metis prod.collapse)

lemma results_loop_step:
  "results_loop env furl (f # rest) results reqs =
     results_loop env furl rest (results @ alone env furl f)
       (reqs @ (if is_ignored_file f then [] else [path_url furl f]))"
proof -
  obtain r q where mm: "make_message env furl f [] = (r, q)" by (cases "make_message env furl f []")
  have 1: "make_message env furl f reqs = (r, reqs @ (if is_ignored_file f then [] else [path_url furl f]))"
    using make_message_split[of env furl f reqs] mm by simp
  show ?thesis
  proof (cases r)
    case (Inr msg)
    with 1 mm show ?thesis by (simp add: alone_def)
  next
    case (Inl e)
    with 1 mm show ?thesis by (cases e) (simp_all add: alone_def)
  qed
qed

lemma results_loop_eq:
  "results_loop env furl fs results reqs =
     (results @ concat (map (alone env furl) fs),
      reqs @ map (path_url furl) (filter (\<lambda>f. \<not> is_ignored_file f) fs))"
proof (induction fs arbitrary: results reqs)
  case Nil
  show ?case by simp
next
  case (Cons f fs)
  show ?case
    unfolding results_loop_step Cons.IH by simp
qed

lemma Repository_Compare_prelude:
  assumes c: "fetches env (change_url b c) (JObj kvs)"
    and r: "map_of kvs ''current_revision'' = Some revision"
    and t: "truthy revision"
    and f: "fetches env (file_url env b c revision) (JObj fkvs)"
  shows "Repository_Compare env b c =
           (case results_loop env (file_url env b c revision)
                   (filter (\<lambda>k. k \<notin> special_keys) (map fst fkvs)) []
                   [change_url b c, file_url env b c revision] of
              (results, reqs) \<Rightarrow> (Inr results, reqs))"
  unfolding Repository_Compare_def get_json_fetches[OF c]
  using r t by (simp add: get_json_fetches[OF f])

lemma Repository_Compare_eq:
  assumes c: "fetches env (change_url b c) (JObj kvs)"
    and r: "map_of kvs ''current_revision'' = Some revision"
    and t: "truthy revision"
    and f: "fetches env (file_url env b c revision) (JObj fkvs)"
  shows "Repository_Compare env b c =
           (Inr (concat (map (alone env (file_url env b c revision))
                   (filter (\<lambda>k. k \<notin> special_keys) (map fst fkvs)))),
            [change_url b c, file_url env b c revision] @
              map (path_url (file_url env b c revision))
                (filter (\<lambda>f. \<not> is_ignored_file f)
                   (filter (\<lambda>k. k \<notin> special_keys) (map fst fkvs))))"
  unfolding Repository_Compare_prelude[OF assms] results_loop_eq by simp

lemma alone_eq:
  "alone env furl f =
     (case fst (make_message env furl f []) of
        Inr msg \<Rightarrow> if msg \<noteq> [] then [msg] else []
      | Inl e \<Rightarrow>
          (case e of
             HTTPError m \<Rightarrow> [header f @ ''[HTTP error] '' @ m @ NL @ NL]
           | _ \<Rightarrow> [header f @ ''[Error] '' @ str_exc env e @ NL @ NL]))"
proof -
  obtain r q where mm: "make_message env furl f [] = (r, q)" by (cases "make_message env furl f []")
  show ?thesis
  proof (cases r)
    case (Inr msg)
    with mm show ?thesis by (simp add: alone_def)
  next
    case (Inl e)
    with mm show ?thesis by (cases e) (simp_all add: alone_def)
  qed
qed

lemma make_message_eq:
  "\<not> is_ignored_file f \<Longrightarrow>
   fst (make_message env furl f []) =
     ebind (fst (get_json env (path_url furl f) (''Decode diff for '' @ f @ '' failed: '') []))
       (\<lambda>return_data. ebind (repository_compare env return_data)
          (\<lambda>rendered. Inr (header f @ rendered)))"
  by (simp add: make_message_def ebind_def split: prod.splits sum.splits)

lemma alone_ignored: "is_ignored_file f \<Longrightarrow> alone env furl f = []"
  by (simp add: alone_eq make_message_def)

lemma alone_raises:
  assumes "\<not> is_ignored_file f" "http_get env (path_url furl f) = Raises m"
  shows "alone env furl f = [header f @ ''[Error] '' @ m @ NL @ NL]"
  unfolding alone_eq make_message_eq[OF assms(1)]
  using assms(2) by (simp add: get_json_def session_get_def ebind_def str_exc_def)

lemma alone_status:
  assumes "\<not> is_ignored_file f" "http_get env (path_url furl f) = Returns resp"
    "400 \<le> status_code resp" "status_code resp < 600"
  shows "alone env furl f = [header f @ ''[HTTP error] '' @ http_error_msg env resp @ NL @ NL]"
  unfolding alone_eq make_message_eq[OF assms(1)]
  using assms(2-) by (simp add: get_json_def session_get_def ebind_def raise_for_status_def)

lemma alone_decode:
  assumes "\<not> is_ignored_file f" "http_get env (path_url furl f) = Returns resp"
    "\<not> (400 \<le> status_code resp \<and> status_code resp < 600)"
    "json_loads env (strip_gerrit_json (resp_text resp)) = Inl e"
  shows "alone env furl f =
           [header f @ ''[Error] '' @ ''Decode diff for '' @ f @ '' failed: '' @ e @ NL @
              ''Raw: '' @ take 200 (resp_text resp) @ NL @ NL]"
  unfolding alone_eq make_message_eq[OF assms(1)]
  using assms(2-)
  by (simp add: get_json_def session_get_def ebind_def raise_for_status_def decode_def str_exc_def)

lemma alone_shape:
  assumes "\<not> is_ignored_file f"
  shows "\<exists>t. alone env furl f = [header f @ t]"
proof (cases "fst (make_message env furl f [])")
  case (Inl e)
  then show ?thesis by (cases e) (simp_all add: alone_eq)
next
  case (Inr msg)
  then obtain s where "msg = header f @ s"
    unfolding make_message_eq[OF assms]
    by (auto simp: ebind_def split: sum.splits)
  with Inr show ?thesis by (simp add: alone_eq header_def)
qed

lemma entries_in_order:
  "list_all2 (\<lambda>f r. prefix (header f) r)
     (filter (\<lambda>f. \<not> is_ignored_file f) fs) (concat (map (alone env furl) fs))"
proof (induction fs)
  case Nil
  show ?case by simp
next
  case (Cons f fs)
  show ?case
  proof (cases "is_ignored_file f")
    case True
    with Cons show ?thesis by (simp add: alone_ignored)
  next
    case False
    then obtain t where "alone env furl f = [header f @ t]" using alone_shape by blast
    with False Cons show ?thesis by simp
  qed
qed

lemma fetches_fun: "fetches env u v \<Longrightarrow> fetches env u v' \<Longrightarrow> v = v'"
  by (auto simp: fetches_def split: http_reply.splits)

lemma get_json_cases:
  obtains (fails) e where "get_json env u what reqs = (Inl e, reqs @ [u])" "\<And>v. \<not> fetches env u v"
  | (ok) v where "get_json env u what reqs = (Inr v, reqs @ [u])" "fetches env u v"
proof (cases "fst (get_json env u what reqs)")
  case (Inl e)
  have "\<not> fetches env u v" for v
    using get_json_fetches[of env u v what reqs] Inl by auto
  moreover have "get_json env u what reqs = (Inl e, reqs @ [u])"
    using Inl get_json_reqs[of env u what reqs] by (metis prod.collapse)
  ultimately show ?thesis using fails by blast
next
  case (Inr v)
  then have "fetches env u v" by (rule get_json_Inr)
  then show ?thesis using ok get_json_fetches by blast
qed

lemma truthy_get:
  "truthy (case map_of kvs key of None \<Rightarrow> JNull | Some v \<Rightarrow> v) \<longleftrightarrow>
     (\<exists>v. map_of kvs key = Some v \<and> truthy v)"
  by (cases "map_of kvs key") simp_all

lemma Repository_Compare_cases:
  obtains (change_fails) e where
      "Repository_Compare env b c = (Inl e, [change_url b c])"
      "\<not> (\<exists>kvs revision. fetches env (change_url b c) (JObj kvs) \<and>
            map_of kvs ''current_revision'' = Some revision \<and> truthy revision)"
  | (files_fail) e kvs revision where
      "Repository_Compare env b c = (Inl e, [change_url b c, file_url env b c revision])"
      "fetches env (change_url b c) (JObj kvs)"
      "map_of kvs ''current_revision'' = Some revision" "truthy revision"
      "\<not> (\<exists>fkvs. fetches env (file_url env b c revision) (JObj fkvs))"
  | (runs) kvs revision fkvs where
      "fetches env (change_url b c) (JObj kvs)"
      "map_of kvs ''current_revision'' = Some revision" "truthy revision"
      "fetches env (file_url env b c revision) (JObj fkvs)"
proof (cases rule: get_json_cases[of env "change_url b c" "''Decode change response failed: ''" "[]"])
  case (fails e)
  then show ?thesis using change_fails[of e] by (simp add: Repository_Compare_def)
next
  case (ok change_data)
  note c = ok
  show ?thesis
  proof (cases change_data)
    case (JObj kvs)
    show ?thesis
    proof (cases "\<exists>revision. map_of kvs ''current_revision'' = Some revision \<and> truthy revision")
      case False
      then have nt: "\<not> truthy (case map_of kvs ''current_revision'' of None \<Rightarrow> JNull | Some v \<Rightarrow> v)"
        by (simp add: truthy_get)
      have "\<not> (\<exists>kvs revision. fetches env (change_url b c) (JObj kvs) \<and>
            map_of kvs ''current_revision'' = Some revision \<and> truthy revision)"
        using False c(2) JObj fetches_fun by blast
      moreover have "Repository_Compare env b c =
          (Inl (RuntimeError ''No current_revision found. Check change_id or permissions.''),
           [change_url b c])"
        using c(1) JObj nt by (simp add: Repository_Compare_def)
      ultimately show ?thesis using change_fails by blast
    next
      case True
      then obtain revision where r: "map_of kvs ''current_revision'' = Some revision" "truthy revision"
        by blast
      show ?thesis
      proof (cases rule: get_json_cases[of env "file_url env b c revision"
                 "''Decode files response failed: ''" "[change_url b c]"])
        case (fails e)
        have "Repository_Compare env b c = (Inl e, [change_url b c, file_url env b c revision])"
          using c(1) JObj r fails(1) by (simp add: Repository_Compare_def)
        then show ?thesis using files_fail c(2) JObj r fails(2) by blast
      next
        case (ok file_data)
        show ?thesis
        proof (cases "\<exists>fkvs. file_data = JObj fkvs")
          case True
          then show ?thesis using runs c(2) JObj r ok(2) by blast
        next
          case False
          then have "dict_keys file_data = Inl AttributeError" by (cases file_data) simp_all
          then have "Repository_Compare env b c =
              (Inl AttributeError, [change_url b c, file_url env b c revision])"
            using c(1) JObj r ok(1) by (simp add: Repository_Compare_def)
          moreover have "\<not> (\<exists>fkvs. fetches env (file_url env b c revision) (JObj fkvs))"
            using False ok(2) fetches_fun by blast
          ultimately show ?thesis using files_fail c(2) JObj r by blast
        qed
      qed
    qed
  next
    case other: JNull
    then have "Repository_Compare env b c = (Inl AttributeError, [change_url b c])"
      using c(1) by (simp add: Repository_Compare_def)
    moreover have "\<not> (\<exists>kvs. fetches env (change_url b c) (JObj kvs))"
      using other c(2) fetches_fun by blast
    ultimately show ?thesis using change_fails by blast
  qed (insert c change_fails fetches_fun, (simp add: Repository_Compare_def; blast)+)
qed

lemma py_str_upd: "py_str (env\<lparr>http_get := h\<rparr>) = py_str env"
  by (rule ext) (simp add: py_str_def split: json.splits)

lemma str_exc_upd: "str_exc (env\<lparr>http_get := h\<rparr>) = str_exc env"
  by (rule ext) (simp add: str_exc_def split: py_error.splits)

lemma format_compare_upd: "format_compare (env\<lparr>http_get := h\<rparr>) = format_compare env"
  by (intro ext) (simp add: format_compare_def py_str_upd)

lemma emit_upd: "emit (env\<lparr>http_get := h\<rparr>) = emit env"
  by (intro ext) (simp add: emit_def format_compare_upd)

lemma render_block_upd:
  "render_block (env\<lparr>http_get := h\<rparr>) n i block out = render_block env n i block out"
  unfolding render_block_def emit_upd by (rule refl)

lemma compare_loop_upd:
  "compare_loop (env\<lparr>http_get := h\<rparr>) n i blocks out = compare_loop env n i blocks out"
  by (induction blocks arbitrary: i out)
     (simp_all add: render_block_upd ebind_def split: sum.splits)

lemma repository_compare_upd:
  "repository_compare (env\<lparr>http_get := h\<rparr>) d = repository_compare env d"
  unfolding repository_compare_def compare_loop_upd by (rule refl)

lemma raise_for_status_upd: "raise_for_status (env\<lparr>http_get := h\<rparr>) = raise_for_status env"
  by (rule ext) (simp add: raise_for_status_def)

lemma decode_upd: "decode (env\<lparr>http_get := h\<rparr>) = decode env"
  by (intro ext) (simp add: decode_def)

lemma get_json_upd:
  "h u = http_get env u \<Longrightarrow> get_json (env\<lparr>http_get := h\<rparr>) u what reqs = get_json env u what reqs"
  unfolding get_json_def raise_for_status_upd decode_upd by (simp add: session_get_def)

lemma make_message_upd:
  "h (path_url furl g) = http_get env (path_url furl g) \<Longrightarrow>
     make_message (env\<lparr>http_get := h\<rparr>) furl g reqs = make_message env furl g reqs"
  unfolding make_message_def repository_compare_upd by (simp add: get_json_upd)

lemma alone_upd:
  "h (path_url furl g) = http_get env (path_url furl g) \<Longrightarrow>
     alone (env\<lparr>http_get := h\<rparr>) furl g = alone env furl g"
  unfolding alone_eq str_exc_upd by (simp add: make_message_upd)

lemma change_url_not_path_url: "change_url b c \<noteq> path_url (file_url env b c revision) f"
  by (simp add: change_url_def path_url_def file_url_def)

lemma file_url_not_path_url: "furl \<noteq> path_url furl f"
  by (simp add: path_url_def)

lemma path_url_inj: "path_url furl f = path_url furl g \<Longrightarrow> f = g"
  by (simp add: path_url_def quote_inj)

lemma fetches_upd:
  "h u = http_get env u \<Longrightarrow> fetches (env\<lparr>http_get := h\<rparr>) u v = fetches env u v"
  by (simp add: fetches_def split: http_reply.splits)

lemma file_url_upd: "file_url (env\<lparr>http_get := h\<rparr>) b c revision = file_url env b c revision"
  by (simp add: file_url_def py_str_upd)

lemma ignored_iff:
  "is_ignored_file f \<longleftrightarrow>
     lower (snd (splitext f)) \<in> {''.so'', ''.a'', ''.md'', ''.png'', ''.jpg'', ''.jpeg'', ''.gif'',
                                ''.zip'', ''.tar'', ''.gz'', ''.bz2''}"
  by (simp add: is_ignored_file_def ext_list_def split: prod.splits)

lemma special_iff: "k \<notin> special_keys \<longleftrightarrow> k \<noteq> ''/COMMIT_MSG'' \<and> k \<noteq> ''/MERGE_LIST''"
  by (simp add: special_keys_def)

lemma repository_compare_wf:
  assumes "dict_get diff_json ''content'' (JArr []) = Inr (JArr blocks)"
    and "\<forall>b \<in> set blocks. wf_block b"
  shows "repository_compare env diff_json =
           Inr (concat (map (\<lambda>i. piece env (length blocks) i (blocks ! i)) [0..<length blocks])
                @ NL @ NL @ NL)"
proof -
  have "map (\<lambda>(j, b). piece env n j b) (zip [0..<length blocks] blocks) =
        map (\<lambda>i. piece env n i (blocks ! i)) [0..<length blocks]" for n
    by (rule nth_equalityI) simp_all
  with assms show ?thesis
    by (simp add: repository_compare_def ebind_def compare_loop_wf)
qed

lemma text_lines_append: "text_lines env pfx (xs @ ys) = text_lines env pfx xs @ text_lines env pfx ys"
  by (simp add: text_lines_def)

lemma revision_unique:
  assumes "fetches env u (JObj kvs)" and "map_of kvs key = Some revision"
    and "fetches env u (JObj kvs')" and "map_of kvs' key = Some revision'"
  shows "revision' = revision"
proof -
  have "JObj kvs' = JObj kvs" using assms(3) assms(1) by (rule fetches_fun)
  with assms(2,4) show ?thesis by simp
qed

lemma requests_shape:
  "(\<exists>more. snd (Repository_Compare env b c) = change_url b c # more) \<and>
   (\<forall>u more.
      snd (Repository_Compare env b c) = change_url b c # u # more \<longrightarrow>
      (\<exists>kvs revision.
         fetches env (change_url b c) (JObj kvs) \<and>
         map_of kvs ''current_revision'' = Some revision \<and> truthy revision \<and>
         u = file_url env b c revision)) \<and>
   (\<forall>kvs revision.
      fetches env (change_url b c) (JObj kvs) \<and>
      map_of kvs ''current_revision'' = Some revision \<and> truthy revision \<longrightarrow>
      (\<exists>more. snd (Repository_Compare env b c) =
         change_url b c # file_url env b c revision # more))"
proof (cases rule: Repository_Compare_cases[of env b c])
  case (change_fails e)
  then have s: "snd (Repository_Compare env b c) = [change_url b c]" by simp
  show ?thesis
  proof (intro conjI allI impI)
    show "\<exists>more. snd (Repository_Compare env b c) = change_url b c # more"
      using s by simp
  next
    fix u more
    assume "snd (Repository_Compare env b c) = change_url b c # u # more"
    with s show "\<exists>kvs revision.
         fetches env (change_url b c) (JObj kvs) \<and>
         map_of kvs ''current_revision'' = Some revision \<and> truthy revision \<and>
         u = file_url env b c revision"
      by simp
  next
    fix kvs revision
    assume "fetches env (change_url b c) (JObj kvs) \<and>
      map_of kvs ''current_revision'' = Some revision \<and> truthy revision"
    with change_fails(2) show "\<exists>more. snd (Repository_Compare env b c) =
         change_url b c # file_url env b c revision # more"
      by blast
  qed
next
  case (files_fail e kvs revision)
  then have s: "snd (Repository_Compare env b c) = [change_url b c, file_url env b c revision]"
    by simp
  show ?thesis
  proof (intro conjI allI impI)
    show "\<exists>more. snd (Repository_Compare env b c) = change_url b c # more"
      using s by simp
  next
    fix u more
    assume "snd (Repository_Compare env b c) = change_url b c # u # more"
    with s have "u = file_url env b c revision" by simp
    with files_fail(2-4) show "\<exists>kvs revision.
         fetches env (change_url b c) (JObj kvs) \<and>
         map_of kvs ''current_revision'' = Some revision \<and> truthy revision \<and>
         u = file_url env b c revision"
      by blast
  next
    fix kvs' revision'
    assume "fetches env (change_url b c) (JObj kvs') \<and>
      map_of kvs' ''current_revision'' = Some revision' \<and> truthy revision'"
    then have "revision' = revision"
      using revision_unique[OF files_fail(2,3)] by blast
    with s show "\<exists>more. snd (Repository_Compare env b c) =
         change_url b c # file_url env b c revision' # more"
      by simp
  qed
next
  case (runs kvs revision fkvs)
  obtain more where s: "snd (Repository_Compare env b c) =
      change_url b c # file_url env b c revision # more"
    unfolding Repository_Compare_eq[OF runs] by simp
  show ?thesis
  proof (intro conjI allI impI)
    show "\<exists>more. snd (Repository_Compare env b c) = change_url b c # more"
      using s by simp
  next
    fix u more'
    assume "snd (Repository_Compare env b c) = change_url b c # u # more'"
    with s have "u = file_url env b c revision" by simp
    with runs(1-3) show "\<exists>kvs revision.
         fetches env (change_url b c) (JObj kvs) \<and>
         map_of kvs ''current_revision'' = Some revision \<and> truthy revision \<and>
         u = file_url env b c revision"
      by blast
  next
    fix kvs' revision'
    assume "fetches env (change_url b c) (JObj kvs') \<and>
      map_of kvs' ''current_revision'' = Some revision' \<and> truthy revision'"
    then have "revision' = revision"
      using revision_unique[OF runs(1,2)] by blast
    with s show "\<exists>more. snd (Repository_Compare env b c) =
         change_url b c # file_url env b c revision' # more"
      by simp
  qed
qed

lemma raises_iff:
  "(\<exists>e. fst (Repository_Compare env b c) = Inl e) \<longleftrightarrow>
   \<not> (\<exists>kvs revision fkvs.
        fetches env (change_url b c) (JObj kvs) \<and>
        map_of kvs ''current_revision'' = Some revision \<and> truthy revision \<and>
        fetches env (file_url env b c revision) (JObj fkvs))"
proof (cases rule: Repository_Compare_cases[of env b c])
  case (change_fails e)
  then have "\<exists>e. fst (Repository_Compare env b c) = Inl e" by simp
  moreover have "\<not> (\<exists>kvs revision fkvs.
        fetches env (change_url b c) (JObj kvs) \<and>
        map_of kvs ''current_revision'' = Some revision \<and> truthy revision \<and>
        fetches env (file_url env b c revision) (JObj fkvs))"
    using change_fails(2) by blast
  ultimately show ?thesis by simp
next
  case (files_fail e kvs revision)
  then have "\<exists>e. fst (Repository_Compare env b c) = Inl e" by simp
  moreover have "\<not> (\<exists>kvs revision fkvs.
        fetches env (change_url b c) (JObj kvs) \<and>
        map_of kvs ''current_revision'' = Some revision \<and> truthy revision \<and>
        fetches env (file_url env b c revision) (JObj fkvs))"
  proof
    assume "\<exists>kvs revision fkvs.
        fetches env (change_url b c) (JObj kvs) \<and>
        map_of kvs ''current_revision'' = Some revision \<and> truthy revision \<and>
        fetches env (file_url env b c revision) (JObj fkvs)"
    then obtain kvs' revision' fkvs where
      a: "fetches env (change_url b c) (JObj kvs')"
        "map_of kvs' ''current_revision'' = Some revision'"
        "fetches env (file_url env b c revision') (JObj fkvs)"
      by blast
    have "revision' = revision"
      using files_fail(2,3) a(1,2) by (rule revision_unique)
    with a(3) files_fail(5) show False by blast
  qed
  ultimately show ?thesis by simp
next
  case (runs kvs revision fkvs)
  have "fst (Repository_Compare env b c) \<noteq> Inl e" for e
    unfolding Repository_Compare_eq[OF runs] by simp
  moreover have "\<exists>kvs revision fkvs.
        fetches env (change_url b c) (JObj kvs) \<and>
        map_of kvs ''current_revision'' = Some revision \<and> truthy revision \<and>
        fetches env (file_url env b c revision) (JObj fkvs)"
    using runs by blast
  ultimately show ?thesis by simp
qed

lemma diff_requests:
  assumes "fetches env (change_url b c) (JObj kvs)"
    and "map_of kvs ''current_revision'' = Some revision"
    and "truthy revision"
    and "fetches env (file_url env b c revision) (JObj fkvs)"
  shows "path_url (file_url env b c revision) f \<in> set (snd (Repository_Compare env b c)) \<longleftrightarrow>
           f \<in> set (map fst fkvs) \<and> f \<notin> special_keys \<and> \<not> is_ignored_file f"
proof -
  let ?furl = "file_url env b c revision"
  have "path_url ?furl f \<in> path_url ?furl ` S \<longleftrightarrow> f \<in> S" for S
    using path_url_inj by blast
  then show ?thesis
    unfolding Repository_Compare_eq[OF assms]
    using change_url_not_path_url[of b c env revision f] file_url_not_path_url[of ?furl f]
    by auto
qed

lemma header_prefix:
  "prefix (header f) r \<Longrightarrow> r \<noteq> [] \<and> prefix (''======== file: '' @ f) r"
proof -
  assume p: "prefix (header f) r"
  have "header f = (''======== file: '' @ f) @ NL @ NL" by (simp add: header_def)
  with p have "prefix (''======== file: '' @ f) r" by (metis append_prefixD)
  moreover have "header f \<noteq> []" by (simp add: header_def)
  with p have "r \<noteq> []" by auto
  ultimately show ?thesis by simp
qed

text \<open>The concrete run: the server of \<open>demo_env\<close> knows one change with five files.\<close>

lemma demo_file_url:
  "file_url demo_env ''g'' ''42'' (JStr ''r1'') = ''g/a/changes/42/revisions/r1/files''"
  by code_simp

lemma demo_change_fetch: "fetches demo_env (change_url ''g'' ''42'') (JObj demo_change)"
  by code_simp

lemma demo_revision: "map_of demo_change ''current_revision'' = Some (JStr ''r1'')"
  by code_simp

lemma demo_files_fetch:
  "fetches demo_env (file_url demo_env ''g'' ''42'' (JStr ''r1'')) (JObj demo_files)"
  by code_simp

lemma demo_run: "Repository_Compare demo_env ''g'' ''42'' = (Inr demo_results, demo_requests)"
  by code_simp

section \<open>Rendering of the diff blocks\<close>

text \<open>
  Claim C1, as amended. Take any diff whose content is a list of blocks. Whenever the
  rendering returns, it is the concatenation of one piece per block, followed by three
  newlines, and the piece of an unchanged block (one with a list under the key \<open>ab\<close>)
  is bounded context: the block at index 0 gives its last 4 lines (also when it is the
  only block); the last block, when it is not the first, gives its first 4 lines; every
  other block gives its first 4 lines followed by its last 4 lines. Each line is ended by
  a newline. And the rendering does return when the blocks are well-formed.
\<close>

theorem unchanged_block_context:
  assumes "dict_get diff_json ''content'' (JArr []) = Inr (JArr blocks)"
  shows "(list_all wf_block blocks \<longrightarrow> (\<exists>out. repository_compare env diff_json = Inr out)) \<and>
         (\<forall>out. repository_compare env diff_json = Inr out \<longrightarrow>
            (\<exists>ps. length ps = length blocks \<and> out = concat ps @ NL @ NL @ NL \<and>
               (\<forall>i kvs ls.
                  i < length blocks \<and> blocks ! i = JObj kvs \<and>
                  map_of kvs ''ab'' = Some (JArr ls) \<longrightarrow>
                  ps ! i =
                    (if i = 0 then text_lines env [] (drop (length ls - 4) ls)
                     else if i = length blocks - 1 then text_lines env [] (take 4 ls)
                     else text_lines env [] (take 4 ls) @
                          text_lines env [] (drop (length ls - 4) ls)))))"
proof (intro conjI allI impI)
  assume "list_all wf_block blocks"
  with assms show "\<exists>out. repository_compare env diff_json = Inr out"
    by (simp add: repository_compare_wf list_all_iff)
next
  fix out
  assume "repository_compare env diff_json = Inr out"
  with assms obtain ps where
    ps: "length ps = length blocks" "out = concat ps @ NL @ NL @ NL" and
    it: "\<And>j. j < length blocks \<Longrightarrow>
          \<exists>o'. render_block env (length blocks) j (blocks ! j) o' = Inr (o' @ ps ! j)"
    using repository_compare_pieces by blast
  have "ps ! i =
      (if i = 0 then text_lines env [] (drop (length ls - 4) ls)
       else if i = length blocks - 1 then text_lines env [] (take 4 ls)
       else text_lines env [] (take 4 ls) @ text_lines env [] (drop (length ls - 4) ls))"
    if "i < length blocks \<and> blocks ! i = JObj kvs \<and> map_of kvs ''ab'' = Some (JArr ls)"
    for i kvs ls
  proof -
    from that it[of i] obtain o' where
      "render_block env (length blocks) i (JObj kvs) o' = Inr (o' @ ps ! i)"
      by auto
    moreover from that have
      "render_block env (length blocks) i (JObj kvs) o' =
         Inr (o' @ piece env (length blocks) i (JObj kvs))"
      by (simp add: render_block_ab)
    ultimately have "ps ! i = piece env (length blocks) i (JObj kvs)" by simp
    with that show ?thesis by (simp add: piece_def)
  qed
  with ps show "\<exists>ps. length ps = length blocks \<and> out = concat ps @ NL @ NL @ NL \<and>
      (\<forall>i kvs ls.
         i < length blocks \<and> blocks ! i = JObj kvs \<and> map_of kvs ''ab'' = Some (JArr ls) \<longrightarrow>
         ps ! i =
           (if i = 0 then text_lines env [] (drop (length ls - 4) ls)
            else if i = length blocks - 1 then text_lines env [] (take 4 ls)
            else text_lines env [] (take 4 ls) @ text_lines env [] (drop (length ls - 4) ls)))"
    by blast
qed

text \<open>
  A witness: the five blocks of \<open>demo_blocks\<close>, three of them unchanged blocks, at the
  first, a middle and the last position.
\<close>

theorem unchanged_block_context_witness:
  "dict_get demo_diff ''content'' (JArr []) = Inr (JArr demo_blocks) \<and>
   list_all wf_block demo_blocks \<and>
   (\<exists>ps. length ps = 5 \<and>
      repository_compare demo_env demo_diff = Inr (concat ps @ NL @ NL @ NL) \<and>
      ps ! 0 = ''c2\<newline>c3\<newline>c4\<newline>c5\<newline>'' \<and>
      ps ! 2 = ''m1\<newline>m2\<newline>m3\<newline>m1\<newline>m2\<newline>m3\<newline>'' \<and>
      ps ! 4 = ''t1\<newline>t2\<newline>t3\<newline>t4\<newline>'')"
proof -
  have h1: "dict_get demo_diff ''content'' (JArr []) = Inr (JArr demo_blocks)"
    by (simp add: demo_diff_def)
  have h2: "list_all wf_block demo_blocks"
    by (simp add: demo_blocks_def)
  note w = unchanged_block_context[OF h1, of demo_env]
  from w h2 obtain out where o: "repository_compare demo_env demo_diff = Inr out"
    by blast
  with w obtain ps where
    len: "length ps = length demo_blocks" and
    out: "out = concat ps @ NL @ NL @ NL" and
    ab: "\<And>i kvs ls. i < length demo_blocks \<and> demo_blocks ! i = JObj kvs \<and>
            map_of kvs ''ab'' = Some (JArr ls) \<Longrightarrow>
          ps ! i =
            (if i = 0 then text_lines demo_env [] (drop (length ls - 4) ls)
             else if i = length demo_blocks - 1 then text_lines demo_env [] (take 4 ls)
             else text_lines demo_env [] (take 4 ls) @
                  text_lines demo_env [] (drop (length ls - 4) ls))"
    by blast
  have p0: "ps ! 0 = ''c2\<newline>c3\<newline>c4\<newline>c5\<newline>''"
    using ab[of 0 "[(''ab'', JArr [JStr ''c1'', JStr ''c2'', JStr ''c3'', JStr ''c4'', JStr ''c5''])]"
                "[JStr ''c1'', JStr ''c2'', JStr ''c3'', JStr ''c4'', JStr ''c5'']"]
    by (simp add: demo_blocks_def text_lines_def py_str_def)
  have p2: "ps ! 2 = ''m1\<newline>m2\<newline>m3\<newline>m1\<newline>m2\<newline>m3\<newline>''"
    using ab[of 2 "[(''ab'', JArr [JStr ''m1'', JStr ''m2'', JStr ''m3''])]"
                "[JStr ''m1'', JStr ''m2'', JStr ''m3'']"]
    by (simp add: demo_blocks_def text_lines_def py_str_def)
  have p4: "ps ! 4 = ''t1\<newline>t2\<newline>t3\<newline>t4\<newline>''"
    using ab[of 4 "[(''ab'', JArr [JStr ''t1'', JStr ''t2'', JStr ''t3'', JStr ''t4'', JStr ''t5''])]"
                "[JStr ''t1'', JStr ''t2'', JStr ''t3'', JStr ''t4'', JStr ''t5'']"]
    by (simp add: demo_blocks_def text_lines_def py_str_def)
  have "length ps = 5" using len by (simp add: demo_blocks_def)
  with h1 h2 o out p0 p2 p4 show ?thesis by blast
qed

text \<open>
  The claim as it was stated fails on a content list of one block: that block is the last
  one, and it contributes its last four lines, not its first four.
\<close>

theorem single_block_counterexample:
  "repository_compare demo_env single_block_diff =
     Inr ''2\<newline>3\<newline>4\<newline>5\<newline>\<newline>\<newline>\<newline>'' \<and>
   repository_compare demo_env single_block_diff \<noteq>
     Inr ''1\<newline>2\<newline>3\<newline>4\<newline>\<newline>\<newline>\<newline>''"
  by code_simp

text \<open>
  Claim C2. Take any diff whose content is a list of blocks. Whenever the rendering
  returns, the piece of a changed block (one without an \<open>ab\<close> key) is every line of its
  \<open>a\<close> list behind \<open>-\<close>, then every line of its \<open>b\<close> list behind \<open>+\<close>, each ended by a
  newline; with one of the two keys only, the lines of that list; nothing is cut. And the
  rendering does return when the blocks are well-formed.
\<close>

theorem changed_block_lines:
  assumes "dict_get diff_json ''content'' (JArr []) = Inr (JArr blocks)"
  shows "(list_all wf_block blocks \<longrightarrow> (\<exists>out. repository_compare env diff_json = Inr out)) \<and>
         (\<forall>out. repository_compare env diff_json = Inr out \<longrightarrow>
            (\<exists>ps. length ps = length blocks \<and> out = concat ps @ NL @ NL @ NL \<and>
               (\<forall>i kvs.
                  i < length blocks \<and> blocks ! i = JObj kvs \<and> map_of kvs ''ab'' = None \<longrightarrow>
                  (\<forall>as bs. map_of kvs ''a'' = Some (JArr as) \<and>
                       map_of kvs ''b'' = Some (JArr bs) \<longrightarrow>
                     ps ! i = concat (map (\<lambda>line. ''-'' @ py_str env line @ NL) as) @
                              concat (map (\<lambda>line. ''+'' @ py_str env line @ NL) bs)) \<and>
                  (\<forall>as. map_of kvs ''a'' = Some (JArr as) \<and> map_of kvs ''b'' = None \<longrightarrow>
                     ps ! i = concat (map (\<lambda>line. ''-'' @ py_str env line @ NL) as)) \<and>
                  (\<forall>bs. map_of kvs ''a'' = None \<and> map_of kvs ''b'' = Some (JArr bs) \<longrightarrow>
                     ps ! i = concat (map (\<lambda>line. ''+'' @ py_str env line @ NL) bs)) \<and>
                  (map_of kvs ''a'' = None \<and> map_of kvs ''b'' = None \<longrightarrow> ps ! i = []))))"
proof (intro conjI allI impI)
  assume "list_all wf_block blocks"
  with assms show "\<exists>out. repository_compare env diff_json = Inr out"
    by (simp add: repository_compare_wf list_all_iff)
next
  fix out
  assume "repository_compare env diff_json = Inr out"
  with assms obtain ps where
    ps: "length ps = length blocks" "out = concat ps @ NL @ NL @ NL" and
    it: "\<And>j. j < length blocks \<Longrightarrow>
          \<exists>o'. render_block env (length blocks) j (blocks ! j) o' = Inr (o' @ ps ! j)"
    using repository_compare_pieces by blast
  have pc: "ps ! i =
      text_lines env ''-'' (lines_of kvs ''a'') @ text_lines env ''+'' (lines_of kvs ''b'')"
    if "i < length blocks" "blocks ! i = JObj kvs" "map_of kvs ''ab'' = None"
      "wf_block (JObj kvs)" for i kvs
  proof -
    from that it[of i] obtain o' where
      "render_block env (length blocks) i (JObj kvs) o' = Inr (o' @ ps ! i)"
      by auto
    moreover from that have
      "render_block env (length blocks) i (JObj kvs) o' =
         Inr (o' @ piece env (length blocks) i (JObj kvs))"
      by (simp add: render_block_changed)
    ultimately have "ps ! i = piece env (length blocks) i (JObj kvs)" by simp
    with that show ?thesis by (simp add: piece_def)
  qed
  have "(\<forall>as bs. map_of kvs ''a'' = Some (JArr as) \<and> map_of kvs ''b'' = Some (JArr bs) \<longrightarrow>
           ps ! i = concat (map (\<lambda>line. ''-'' @ py_str env line @ NL) as) @
                    concat (map (\<lambda>line. ''+'' @ py_str env line @ NL) bs)) \<and>
        (\<forall>as. map_of kvs ''a'' = Some (JArr as) \<and> map_of kvs ''b'' = None \<longrightarrow>
           ps ! i = concat (map (\<lambda>line. ''-'' @ py_str env line @ NL) as)) \<and>
        (\<forall>bs. map_of kvs ''a'' = None \<and> map_of kvs ''b'' = Some (JArr bs) \<longrightarrow>
           ps ! i = concat (map (\<lambda>line. ''+'' @ py_str env line @ NL) bs)) \<and>
        (map_of kvs ''a'' = None \<and> map_of kvs ''b'' = None \<longrightarrow> ps ! i = [])"
    if b: "i < length blocks \<and> blocks ! i = JObj kvs \<and> map_of kvs ''ab'' = None" for i kvs
  proof (intro conjI allI impI)
    fix as bs
    assume h: "map_of kvs ''a'' = Some (JArr as) \<and> map_of kvs ''b'' = Some (JArr bs)"
    with b have "wf_block (JObj kvs)" by simp
    with b h pc[of i kvs]
    show "ps ! i = concat (map (\<lambda>line. ''-'' @ py_str env line @ NL) as) @
                   concat (map (\<lambda>line. ''+'' @ py_str env line @ NL) bs)"
      by (simp add: lines_of_def text_lines_def)
  next
    fix as
    assume h: "map_of kvs ''a'' = Some (JArr as) \<and> map_of kvs ''b'' = None"
    with b have "wf_block (JObj kvs)" by simp
    with b h pc[of i kvs]
    show "ps ! i = concat (map (\<lambda>line. ''-'' @ py_str env line @ NL) as)"
      by (simp add: lines_of_def text_lines_def)
  next
    fix bs
    assume h: "map_of kvs ''a'' = None \<and> map_of kvs ''b'' = Some (JArr bs)"
    with b have "wf_block (JObj kvs)" by simp
    with b h pc[of i kvs]
    show "ps ! i = concat (map (\<lambda>line. ''+'' @ py_str env line @ NL) bs)"
      by (simp add: lines_of_def text_lines_def)
  next
    assume h: "map_of kvs ''a'' = None \<and> map_of kvs ''b'' = None"
    with b have "wf_block (JObj kvs)" by simp
    with b h pc[of i kvs]
    show "ps ! i = []"
      by (simp add: lines_of_def text_lines_def)
  qed
  with ps show "\<exists>ps. length ps = length blocks \<and> out = concat ps @ NL @ NL @ NL \<and>
      (\<forall>i kvs.
         i < length blocks \<and> blocks ! i = JObj kvs \<and> map_of kvs ''ab'' = None \<longrightarrow>
         (\<forall>as bs. map_of kvs ''a'' = Some (JArr as) \<and> map_of kvs ''b'' = Some (JArr bs) \<longrightarrow>
            ps ! i = concat (map (\<lambda>line. ''-'' @ py_str env line @ NL) as) @
                     concat (map (\<lambda>line. ''+'' @ py_str env line @ NL) bs)) \<and>
         (\<forall>as. map_of kvs ''a'' = Some (JArr as) \<and> map_of kvs ''b'' = None \<longrightarrow>
            ps ! i = concat (map (\<lambda>line. ''-'' @ py_str env line @ NL) as)) \<and>
         (\<forall>bs. map_of kvs ''a'' = None \<and> map_of kvs ''b'' = Some (JArr bs) \<longrightarrow>
            ps ! i = concat (map (\<lambda>line. ''+'' @ py_str env line @ NL) bs)) \<and>
         (map_of kvs ''a'' = None \<and> map_of kvs ''b'' = None \<longrightarrow> ps ! i = []))"
    by blast
qed

text \<open>
  A witness: the second block of \<open>demo_blocks\<close> has both lists, the fourth only \<open>b\<close>.
\<close>

theorem changed_block_lines_witness:
  "dict_get demo_diff ''content'' (JArr []) = Inr (JArr demo_blocks) \<and>
   list_all wf_block demo_blocks \<and>
   (\<exists>ps. length ps = 5 \<and>
      repository_compare demo_env demo_diff = Inr (concat ps @ NL @ NL @ NL) \<and>
      ps ! 1 = ''-old\<newline>+new1\<newline>+new2\<newline>'' \<and>
      ps ! 3 = ''+added\<newline>'')"
proof -
  have h1: "dict_get demo_diff ''content'' (JArr []) = Inr (JArr demo_blocks)"
    by (simp add: demo_diff_def)
  have h2: "list_all wf_block demo_blocks"
    by (simp add: demo_blocks_def)
  note w = changed_block_lines[OF h1, of demo_env]
  from w h2 obtain out where o: "repository_compare demo_env demo_diff = Inr out"
    by blast
  with w obtain ps where
    len: "length ps = length demo_blocks" and
    out: "out = concat ps @ NL @ NL @ NL" and
    ch: "\<And>i kvs. i < length demo_blocks \<and> demo_blocks ! i = JObj kvs \<and>
            map_of kvs ''ab'' = None \<Longrightarrow>
          (\<forall>as bs. map_of kvs ''a'' = Some (JArr as) \<and> map_of kvs ''b'' = Some (JArr bs) \<longrightarrow>
             ps ! i = concat (map (\<lambda>line. ''-'' @ py_str demo_env line @ NL) as) @
                      concat (map (\<lambda>line. ''+'' @ py_str demo_env line @ NL) bs)) \<and>
          (\<forall>bs. map_of kvs ''a'' = None \<and> map_of kvs ''b'' = Some (JArr bs) \<longrightarrow>
             ps ! i = concat (map (\<lambda>line. ''+'' @ py_str demo_env line @ NL) bs))"
    by blast
  have p1: "ps ! 1 = ''-old\<newline>+new1\<newline>+new2\<newline>''"
    using ch[of 1 "[(''a'', JArr [JStr ''old'']), (''b'', JArr [JStr ''new1'', JStr ''new2''])]"]
    by (simp add: demo_blocks_def py_str_def)
  have p3: "ps ! 3 = ''+added\<newline>''"
    using ch[of 3 "[(''b'', JArr [JStr ''added''])]"]
    by (simp add: demo_blocks_def py_str_def)
  have "length ps = 5" using len by (simp add: demo_blocks_def)
  with h1 h2 o out p1 p3 show ?thesis by blast
qed

text \<open>
  Claim C9. An unchanged block that is neither the first nor the last of the content list
  and holds \<open>n\<close> lines with \<open>1 \<le> n < 8\<close> is rendered as its first 4 lines followed by its
  last 4 lines: \<open>min 4 n + min 4 n\<close> lines, more than the block has, and the line at
  index \<open>n - 4\<close> of the block is emitted twice, in the first slice and as the first line of
  the second.
\<close>

theorem middle_block_overlap:
  assumes "i < length blocks" and "blocks ! i = JObj kvs"
    and "map_of kvs ''ab'' = Some (JArr ls)"
    and "i \<noteq> 0" and "i \<noteq> length blocks - 1"
    and "1 \<le> length ls" and "length ls < 8"
  shows "render_block env (length blocks) i (blocks ! i) out =
           Inr (out @ text_lines env [] (take 4 ls @ drop (length ls - 4) ls)) \<and>
         length (take 4 ls @ drop (length ls - 4) ls) = min 4 (length ls) + min 4 (length ls) \<and>
         length ls < length (take 4 ls @ drop (length ls - 4) ls) \<and>
         length ls - 4 < min 4 (length ls) \<and>
         (take 4 ls @ drop (length ls - 4) ls) ! (length ls - 4) = ls ! (length ls - 4) \<and>
         (take 4 ls @ drop (length ls - 4) ls) ! (min 4 (length ls)) = ls ! (length ls - 4)"
proof -
  have "render_block env (length blocks) i (JObj kvs) out =
          Inr (out @ piece env (length blocks) i (JObj kvs))"
    using assms(3) by (rule render_block_ab)
  then have r: "render_block env (length blocks) i (blocks ! i) out =
          Inr (out @ text_lines env [] (take 4 ls @ drop (length ls - 4) ls))"
    using assms(2-5) by (simp add: piece_def text_lines_append)
  have j: "length ls - 4 < min 4 (length ls)" using assms(6,7) by auto
  have a: "(take 4 ls @ drop (length ls - 4) ls) ! (length ls - 4) = ls ! (length ls - 4)"
    using j by (simp add: nth_append)
  have b: "(take 4 ls @ drop (length ls - 4) ls) ! (min 4 (length ls)) = ls ! (length ls - 4)"
  proof (cases "length ls \<le> 4")
    case True
    then have "take 4 ls = ls" "drop (length ls - 4) ls = ls" "min 4 (length ls) = length ls"
      by simp_all
    moreover have "(ls @ ls) ! (length ls + 0) = ls ! 0"
      by (rule nth_append_length_plus)
    ultimately show ?thesis using True by simp
  next
    case False
    then have "length (take 4 ls) = 4" "min 4 (length ls) = 4"
      by simp_all
    moreover have "(take 4 ls @ drop (length ls - 4) ls) ! (length (take 4 ls) + 0) =
        drop (length ls - 4) ls ! 0"
      by (rule nth_append_length_plus)
    ultimately show ?thesis by simp
  qed
  have l: "length (take 4 ls @ drop (length ls - 4) ls) = min 4 (length ls) + min 4 (length ls)"
    by auto
  have m: "length ls < length (take 4 ls @ drop (length ls - 4) ls)"
    using assms(6,7) by auto
  from r l m j a b show ?thesis by blast
qed

text \<open>A witness: the third block of \<open>demo_blocks\<close>, with three lines, each emitted twice.\<close>

theorem middle_block_overlap_witness:
  "2 < length demo_blocks \<and>
   demo_blocks ! 2 = JObj [(''ab'', JArr [JStr ''m1'', JStr ''m2'', JStr ''m3''])] \<and>
   (2::nat) \<noteq> 0 \<and> 2 \<noteq> length demo_blocks - 1 \<and>
   render_block demo_env (length demo_blocks) 2 (demo_blocks ! 2) ''x'' =
     Inr ''xm1\<newline>m2\<newline>m3\<newline>m1\<newline>m2\<newline>m3\<newline>''"
proof -
  let ?ls = "[JStr ''m1'', JStr ''m2'', JStr ''m3'']"
  have h1: "2 < length demo_blocks" by (simp add: demo_blocks_def)
  have h2: "demo_blocks ! 2 = JObj [(''ab'', JArr ?ls)]" by (simp add: demo_blocks_def)
  have h3: "map_of [(''ab'', JArr ?ls)] ''ab'' = Some (JArr ?ls)" by simp
  have h4: "(2::nat) \<noteq> 0" by simp
  have h5: "2 \<noteq> length demo_blocks - 1" by (simp add: demo_blocks_def)
  have h6: "1 \<le> length ?ls" by simp
  have h7: "length ?ls < 8" by simp
  from middle_block_overlap[OF h1 h2 h3 h4 h5 h6 h7, of demo_env "''x''"]
  have "render_block demo_env (length demo_blocks) 2 (demo_blocks ! 2) ''x'' =
          Inr (''x'' @ text_lines demo_env [] (take 4 ?ls @ drop (length ?ls - 4) ?ls))"
    by blast
  then have "render_block demo_env (length demo_blocks) 2 (demo_blocks ! 2) ''x'' =
          Inr ''xm1\<newline>m2\<newline>m3\<newline>m1\<newline>m2\<newline>m3\<newline>''"
    by (simp add: text_lines_def py_str_def)
  with h1 h2 h4 h5 show ?thesis by blast
qed

section \<open>Response framing\<close>

text \<open>
  Claim C4. The text handed to the JSON parser is the response body without Gerrit's
  framing: a body that does not start with \<open>gerrit_prefix\<close> (the four characters
  \<^verbatim>\<open>)]}'\<close>) is left as it is; one that starts with it and has no newline becomes the
  empty string; otherwise what follows the first newline remains. Every fetch decodes
  the stripped body.
\<close>

theorem gerrit_framing_stripped:
  "(\<not> prefix gerrit_prefix t1 \<longrightarrow> strip_gerrit_json t1 = t1) \<and>
   (prefix gerrit_prefix t2 \<and> CHR 0x0A \<notin> set t2 \<longrightarrow> strip_gerrit_json t2 = []) \<and>
   (prefix gerrit_prefix (a @ NL @ rest) \<and> CHR 0x0A \<notin> set a \<longrightarrow>
      strip_gerrit_json (a @ NL @ rest) = rest) \<and>
   (http_get env u = Returns resp \<and> \<not> (400 \<le> status_code resp \<and> status_code resp < 600) \<longrightarrow>
      fst (get_json env u what reqs) =
        (case json_loads env (strip_gerrit_json (resp_text resp)) of
           Inl e \<Rightarrow> Inl (RuntimeError (what @ e @ NL @ ''Raw: '' @ take 200 (resp_text resp)))
         | Inr v \<Rightarrow> Inr v))"
proof (intro conjI impI)
  assume "\<not> prefix gerrit_prefix t1"
  then show "strip_gerrit_json t1 = t1" by (simp add: strip_gerrit_json_def)
next
  assume "prefix gerrit_prefix t2 \<and> CHR 0x0A \<notin> set t2"
  then show "strip_gerrit_json t2 = []" by (simp add: strip_gerrit_json_def)
next
  assume h: "prefix gerrit_prefix (a @ NL @ rest) \<and> CHR 0x0A \<notin> set a"
  then have "dropWhile (\<lambda>c. c \<noteq> CHR 0x0A) a = []"
    by auto
  moreover have "dropWhile (\<lambda>c. c \<noteq> CHR 0x0A) (a @ CHR 0x0A # rest) =
      dropWhile (\<lambda>c. c \<noteq> CHR 0x0A) a @ CHR 0x0A # rest"
    by (rule dropWhile_append3) simp
  ultimately have "dropWhile (\<lambda>c. c \<noteq> CHR 0x0A) (a @ NL @ rest) = NL @ rest"
    by simp
  with h show "strip_gerrit_json (a @ NL @ rest) = rest"
    by (simp add: strip_gerrit_json_def split_once_def)
next
  assume "http_get env u = Returns resp \<and>
    \<not> (400 \<le> status_code resp \<and> status_code resp < 600)"
  then have "http_get env u = Returns resp" and "raise_for_status env resp = Inr ()"
    by (auto simp: raise_for_status_def)
  then show "fst (get_json env u what reqs) =
        (case json_loads env (strip_gerrit_json (resp_text resp)) of
           Inl e \<Rightarrow> Inl (RuntimeError (what @ e @ NL @ ''Raw: '' @ take 200 (resp_text resp)))
         | Inr v \<Rightarrow> Inr v)"
    by (simp add: get_json_def session_get_def decode_def ebind_def)
qed

text \<open>A witness: an unframed body, a frame with no newline, and the framed change.\<close>

theorem gerrit_framing_stripped_witness:
  "strip_gerrit_json ''{}'' = ''{}'' \<and>
   strip_gerrit_json gerrit_prefix = [] \<and>
   strip_gerrit_json (gerrit_prefix @ NL @ ''{}'' @ NL @ ''x'') = ''{}'' @ NL @ ''x'' \<and>
   fst (get_json demo_env ''g/a/changes/42?o=CURRENT_REVISION'' ''w'' []) = Inr (JObj demo_change)"
proof -
  let ?resp = "\<lparr>status_code = 200, resp_text = gerrit_prefix @ NL @ ''change''\<rparr>"
  have h1: "\<not> prefix gerrit_prefix ''{}''" by (simp add: gerrit_prefix_def)
  have h2: "prefix gerrit_prefix gerrit_prefix \<and> CHR 0x0A \<notin> set gerrit_prefix"
    by (simp add: gerrit_prefix_def)
  have h3: "prefix gerrit_prefix (gerrit_prefix @ NL @ ''{}'' @ NL @ ''x'') \<and>
      CHR 0x0A \<notin> set gerrit_prefix"
    by (simp add: gerrit_prefix_def)
  have h4: "http_get demo_env ''g/a/changes/42?o=CURRENT_REVISION'' = Returns ?resp \<and>
      \<not> (400 \<le> status_code ?resp \<and> status_code ?resp < 600)"
    by (simp add: demo_env_def)
  have s: "strip_gerrit_json (gerrit_prefix @ NL @ ''change'') = ''change''"
    by code_simp
  note w = gerrit_framing_stripped[of "''{}''" gerrit_prefix gerrit_prefix "''{}'' @ NL @ ''x''"
      demo_env "''g/a/changes/42?o=CURRENT_REVISION''" ?resp "''w''" "[]"]
  have "fst (get_json demo_env ''g/a/changes/42?o=CURRENT_REVISION'' ''w'' []) =
      Inr (JObj demo_change)"
    using w h4 s by (simp add: demo_env_def)
  with w h1 h2 h3 show ?thesis by blast
qed

section \<open>The run\<close>

text \<open>
  Claim C7. The first request of every run is the GET of
  \<open>{base}/a/changes/{id}?o=CURRENT_REVISION\<close>. A second request, if there is one,
  is the GET of \<open>{base}/a/changes/{id}/revisions/{revision}/files\<close> for the value under
  \<open>current_revision\<close> in the decoded change, and it is made only when the change request
  succeeded and that value is present and true; and whenever this is so, it is made.
\<close>

theorem request_sequence:
  "(\<exists>more. snd (Repository_Compare env b c) =
       (b @ ''/a/changes/'' @ c @ ''?o=CURRENT_REVISION'') # more) \<and>
   (\<forall>u more.
      snd (Repository_Compare env b c) =
        (b @ ''/a/changes/'' @ c @ ''?o=CURRENT_REVISION'') # u # more \<longrightarrow>
      (\<exists>kvs revision.
         fetches env (b @ ''/a/changes/'' @ c @ ''?o=CURRENT_REVISION'') (JObj kvs) \<and>
         map_of kvs ''current_revision'' = Some revision \<and> truthy revision \<and>
         u = b @ ''/a/changes/'' @ c @ ''/revisions/'' @ py_str env revision @ ''/files'')) \<and>
   (\<forall>kvs revision.
      fetches env (b @ ''/a/changes/'' @ c @ ''?o=CURRENT_REVISION'') (JObj kvs) \<and>
      map_of kvs ''current_revision'' = Some revision \<and> truthy revision \<longrightarrow>
      (\<exists>more. snd (Repository_Compare env b c) =
         (b @ ''/a/changes/'' @ c @ ''?o=CURRENT_REVISION'') #
         (b @ ''/a/changes/'' @ c @ ''/revisions/'' @ py_str env revision @ ''/files'') # more))"
  by (rule requests_shape[unfolded change_url_def file_url_def])

text \<open>A witness: the run against \<open>demo_env\<close>, whose change has the revision \<open>r1\<close>.\<close>

theorem request_sequence_witness:
  "fetches demo_env (''g'' @ ''/a/changes/'' @ ''42'' @ ''?o=CURRENT_REVISION'') (JObj demo_change) \<and>
   map_of demo_change ''current_revision'' = Some (JStr ''r1'') \<and> truthy (JStr ''r1'') \<and>
   (\<exists>more. snd (Repository_Compare demo_env ''g'' ''42'') =
      ''g/a/changes/42?o=CURRENT_REVISION'' # ''g/a/changes/42/revisions/r1/files'' # more)"
proof -
  have h1: "fetches demo_env (''g'' @ ''/a/changes/'' @ ''42'' @ ''?o=CURRENT_REVISION'')
      (JObj demo_change)"
    by code_simp
  have h2: "map_of demo_change ''current_revision'' = Some (JStr ''r1'')"
    by (rule demo_revision)
  have h3: "truthy (JStr ''r1'')" by simp
  from request_sequence[of demo_env "''g''" "''42''"] h1 h2 h3
  have "\<exists>more. snd (Repository_Compare demo_env ''g'' ''42'') =
      (''g'' @ ''/a/changes/'' @ ''42'' @ ''?o=CURRENT_REVISION'') #
      (''g'' @ ''/a/changes/'' @ ''42'' @ ''/revisions/'' @ py_str demo_env (JStr ''r1'') @ ''/files'')
        # more"
    by blast
  then have "\<exists>more. snd (Repository_Compare demo_env ''g'' ''42'') =
      ''g/a/changes/42?o=CURRENT_REVISION'' # ''g/a/changes/42/revisions/r1/files'' # more"
    by (simp add: py_str_def)
  with h1 h2 h3 show ?thesis by blast
qed

text \<open>
  Claim C8. \<open>Repository_Compare\<close> raises, and so returns no list of results, exactly
  when a step before the loop fails: the change is not fetched or not decoded to a
  dictionary, \<open>current_revision\<close> is missing or false, or the file list is not fetched or
  not decoded to a dictionary. What happens to the single files has no part in it.
\<close>

theorem failure_before_loop_raises:
  "(\<exists>e. fst (Repository_Compare env b c) = Inl e) \<longleftrightarrow>
   \<not> (\<exists>kvs revision fkvs.
        fetches env (change_url b c) (JObj kvs) \<and>
        map_of kvs ''current_revision'' = Some revision \<and> truthy revision \<and>
        fetches env (file_url env b c revision) (JObj fkvs))"
  by (rule raises_iff)

text \<open>
  A witness: against \<open>demo_env\<close> the change \<open>42\<close> at \<open>g\<close> is served and the run returns
  a list, though two of its files fail; at any other base address the connection is
  refused and the run raises.
\<close>

theorem failure_before_loop_raises_witness:
  "fst (Repository_Compare demo_env ''g'' ''42'') = Inr demo_results \<and>
   fetches demo_env (change_url ''g'' ''42'') (JObj demo_change) \<and>
   fetches demo_env (file_url demo_env ''g'' ''42'' (JStr ''r1'')) (JObj demo_files) \<and>
   http_get demo_env (change_url ''h'' ''42'') = Raises ''refused'' \<and>
   (\<exists>e. fst (Repository_Compare demo_env ''h'' ''42'') = Inl e)"
proof -
  have r: "fst (Repository_Compare demo_env ''g'' ''42'') = Inr demo_results"
    using failure_before_loop_raises[of demo_env "''g''" "''42''"]
      demo_change_fetch demo_revision demo_files_fetch demo_run
    by simp
  have d: "http_get demo_env (change_url ''h'' ''42'') = Raises ''refused''"
    by code_simp
  then have "\<not> fetches demo_env (change_url ''h'' ''42'') v" for v
    by (simp add: fetches_def)
  with failure_before_loop_raises[of demo_env "''h''" "''42''"]
  have "\<exists>e. fst (Repository_Compare demo_env ''h'' ''42'') = Inl e"
    by blast
  with r d demo_change_fetch demo_files_fetch show ?thesis by blast
qed

text \<open>
  Claim C5. When the change and the file list are fetched, the loop over the files runs
  on the keys of the file-list response in their order, without \<open>/COMMIT_MSG\<close> and
  \<open>/MERGE_LIST\<close> and with every other key, wherever the two stand. So no diff is
  requested for the two, and one is requested for every other key that the extension
  denylist does not exclude.
\<close>

theorem special_keys_removed:
  assumes "fetches env (change_url b c) (JObj kvs)"
    and "map_of kvs ''current_revision'' = Some revision"
    and "truthy revision"
    and "fetches env (file_url env b c revision) (JObj fkvs)"
  shows "Repository_Compare env b c =
           (case results_loop env (file_url env b c revision)
                   (filter (\<lambda>k. k \<noteq> ''/COMMIT_MSG'' \<and> k \<noteq> ''/MERGE_LIST'') (map fst fkvs)) []
                   [change_url b c, file_url env b c revision] of
              (results, reqs) \<Rightarrow> (Inr results, reqs)) \<and>
         path_url (file_url env b c revision) ''/COMMIT_MSG''
           \<notin> set (snd (Repository_Compare env b c)) \<and>
         path_url (file_url env b c revision) ''/MERGE_LIST''
           \<notin> set (snd (Repository_Compare env b c)) \<and>
         list_all (\<lambda>k. k = ''/COMMIT_MSG'' \<or> k = ''/MERGE_LIST'' \<or> is_ignored_file k \<or>
                     path_url (file_url env b c revision) k
                       \<in> set (snd (Repository_Compare env b c)))
           (map fst fkvs)"
proof (intro conjI)
  have "filter (\<lambda>k. k \<notin> special_keys) (map fst fkvs) =
      filter (\<lambda>k. k \<noteq> ''/COMMIT_MSG'' \<and> k \<noteq> ''/MERGE_LIST'') (map fst fkvs)"
    by (simp add: special_iff)
  then show "Repository_Compare env b c =
           (case results_loop env (file_url env b c revision)
                   (filter (\<lambda>k. k \<noteq> ''/COMMIT_MSG'' \<and> k \<noteq> ''/MERGE_LIST'') (map fst fkvs)) []
                   [change_url b c, file_url env b c revision] of
              (results, reqs) \<Rightarrow> (Inr results, reqs))"
    using Repository_Compare_prelude[OF assms] by simp
  show "path_url (file_url env b c revision) ''/COMMIT_MSG''
      \<notin> set (snd (Repository_Compare env b c))"
    unfolding diff_requests[OF assms] by (simp add: special_keys_def)
  show "path_url (file_url env b c revision) ''/MERGE_LIST''
      \<notin> set (snd (Repository_Compare env b c))"
    unfolding diff_requests[OF assms] by (simp add: special_keys_def)
  show "list_all (\<lambda>k. k = ''/COMMIT_MSG'' \<or> k = ''/MERGE_LIST'' \<or> is_ignored_file k \<or>
                     path_url (file_url env b c revision) k
                       \<in> set (snd (Repository_Compare env b c)))
           (map fst fkvs)"
    unfolding diff_requests[OF assms] list_all_iff special_iff by auto
qed

text \<open>
  A witness: the file list of \<open>demo_env\<close> starts with \<open>/COMMIT_MSG\<close>, and the requests of
  the run hold no diff request for it.
\<close>

theorem special_keys_removed_witness:
  "fetches demo_env (change_url ''g'' ''42'') (JObj demo_change) \<and>
   map_of demo_change ''current_revision'' = Some (JStr ''r1'') \<and>
   truthy (JStr ''r1'') \<and>
   fetches demo_env (file_url demo_env ''g'' ''42'' (JStr ''r1'')) (JObj demo_files) \<and>
   snd (Repository_Compare demo_env ''g'' ''42'') = demo_requests \<and>
   ''g/a/changes/42/revisions/r1/files/%2FCOMMIT_MSG/diff'' \<notin> set demo_requests"
proof -
  have t: "truthy (JStr ''r1'')" by simp
  have u: "path_url (file_url demo_env ''g'' ''42'' (JStr ''r1'')) ''/COMMIT_MSG'' =
      ''g/a/changes/42/revisions/r1/files/%2FCOMMIT_MSG/diff''"
    by code_simp
  have s: "snd (Repository_Compare demo_env ''g'' ''42'') = demo_requests"
    by (simp add: demo_run)
  from special_keys_removed[OF demo_change_fetch demo_revision t demo_files_fetch]
  have "path_url (file_url demo_env ''g'' ''42'' (JStr ''r1'')) ''/COMMIT_MSG''
      \<notin> set (snd (Repository_Compare demo_env ''g'' ''42''))"
    by blast
  then have "''g/a/changes/42/revisions/r1/files/%2FCOMMIT_MSG/diff'' \<notin> set demo_requests"
    unfolding u s .
  with demo_change_fetch demo_revision t demo_files_fetch s show ?thesis by blast
qed

text \<open>
  Claim C6. A file is ignored when the extension \<^verbatim>\<open>os.path.splitext\<close> gives it, in lower
  case, is in the denylist. When the change and the file list are fetched, the results
  are the entries of the files of the list in order and the requests after the first two
  are the diff requests of the files that are not ignored, in order. An ignored file has
  no entry and no diff request; a file of the list that is not ignored has one entry and
  its diff request is made.
\<close>

theorem ignored_files_skipped:
  fixes env :: env and b c :: string and revision :: json and fkvs :: "(string \<times> json) list"
    and furl :: string and files :: "string list" and denylist :: "string set"
  defines "furl \<equiv> file_url env b c revision"
    and "files \<equiv> filter (\<lambda>k. k \<notin> special_keys) (map fst fkvs)"
    and "denylist \<equiv> {''.so'', ''.a'', ''.md'', ''.png'', ''.jpg'', ''.jpeg'', ''.gif'', ''.zip'',
                      ''.tar'', ''.gz'', ''.bz2''}"
  assumes "fetches env (change_url b c) (JObj kvs)"
    and "map_of kvs ''current_revision'' = Some revision"
    and "truthy revision"
    and "fetches env (file_url env b c revision) (JObj fkvs)"
  shows "Repository_Compare env b c =
           (Inr (concat (map (alone env furl) files)),
            [change_url b c, furl] @
              map (path_url furl) (filter (\<lambda>f. lower (snd (splitext f)) \<notin> denylist) files)) \<and>
         (\<forall>f. lower (snd (splitext f)) \<in> denylist \<longrightarrow>
            alone env furl f = [] \<and>
            path_url furl f \<notin> set (snd (Repository_Compare env b c))) \<and>
         (\<forall>f. f \<in> set files \<and> lower (snd (splitext f)) \<notin> denylist \<longrightarrow>
            (\<exists>t. alone env furl f = [''======== file: '' @ f @ NL @ NL @ t]) \<and>
            path_url furl f \<in> set (snd (Repository_Compare env b c)))"
proof (intro conjI allI impI)
  note p = assms(4-7)
  have ign: "is_ignored_file f \<longleftrightarrow> lower (snd (splitext f)) \<in> denylist" for f
    unfolding denylist_def by (rule ignored_iff)
  show "Repository_Compare env b c =
           (Inr (concat (map (alone env furl) files)),
            [change_url b c, furl] @
              map (path_url furl) (filter (\<lambda>f. lower (snd (splitext f)) \<notin> denylist) files))"
    unfolding Repository_Compare_eq[OF p] furl_def files_def ign by (rule refl)
  {
    fix f
    assume "lower (snd (splitext f)) \<in> denylist"
    then have i: "is_ignored_file f" by (simp add: ign)
    then show "alone env furl f = []" by (rule alone_ignored)
    from i show "path_url furl f \<notin> set (snd (Repository_Compare env b c))"
      unfolding furl_def diff_requests[OF p] by simp
  next
    fix f
    assume "f \<in> set files \<and> lower (snd (splitext f)) \<notin> denylist"
    then have i: "\<not> is_ignored_file f" and m: "f \<in> set (map fst fkvs)" "f \<notin> special_keys"
      by (simp_all add: ign files_def)
    from alone_shape[OF i] obtain t where "alone env furl f = [header f @ t]" by blast
    then show "\<exists>t. alone env furl f = [''======== file: '' @ f @ NL @ NL @ t]"
      by (simp add: header_def)
    from i m show "path_url furl f \<in> set (snd (Repository_Compare env b c))"
      unfolding furl_def diff_requests[OF p] by simp
  }
qed

text \<open>
  A witness: of the files of \<open>demo_env\<close>, \<open>README.md\<close> is ignored; the run makes no
  request for it and returns the entries of the three other files.
\<close>

theorem ignored_files_skipped_witness:
  "fetches demo_env (change_url ''g'' ''42'') (JObj demo_change) \<and>
   map_of demo_change ''current_revision'' = Some (JStr ''r1'') \<and>
   truthy (JStr ''r1'') \<and>
   fetches demo_env (file_url demo_env ''g'' ''42'' (JStr ''r1'')) (JObj demo_files) \<and>
   lower (snd (splitext ''README.md'')) = ''.md'' \<and>
   alone demo_env (file_url demo_env ''g'' ''42'' (JStr ''r1'')) ''README.md'' = [] \<and>
   ''g/a/changes/42/revisions/r1/files/README.md/diff'' \<notin> set demo_requests \<and>
   Repository_Compare demo_env ''g'' ''42'' = (Inr demo_results, demo_requests)"
proof -
  have t: "truthy (JStr ''r1'')" by simp
  have e: "lower (snd (splitext ''README.md'')) = ''.md''" by code_simp
  have u: "path_url (file_url demo_env ''g'' ''42'' (JStr ''r1'')) ''README.md'' =
      ''g/a/changes/42/revisions/r1/files/README.md/diff''"
    by code_simp
  note w = ignored_files_skipped[OF demo_change_fetch demo_revision t demo_files_fetch]
  have m: "lower (snd (splitext ''README.md'')) \<in>
      {''.so'', ''.a'', ''.md'', ''.png'', ''.jpg'', ''.jpeg'', ''.gif'', ''.zip'', ''.tar'', ''.gz'',
       ''.bz2''}"
    by (simp add: e)
  from w[THEN conjunct2, THEN conjunct1, rule_format, OF m]
  have "alone demo_env (file_url demo_env ''g'' ''42'' (JStr ''r1'')) ''README.md'' = []"
    and "''g/a/changes/42/revisions/r1/files/README.md/diff'' \<notin> set demo_requests"
    unfolding u demo_run by simp_all
  with demo_change_fetch demo_revision t demo_files_fetch e demo_run show ?thesis by blast
qed

text \<open>
  Claim C3. When the change and the file list are fetched, the run returns a list,
  whatever happens to the single files: the results are, file after file in the order of
  the list, what the loop appends for that file alone. A file whose GET raises, whose
  response has an error status or whose body does not decode gets one entry, an error
  message under its header. And replacing the reply to the diff request of one file
  changes nothing but the entry of that file.
\<close>

theorem per_file_error_isolation:
  fixes env :: env and b c :: string and revision :: json and fkvs :: "(string \<times> json) list"
    and furl :: string and files :: "string list"
  defines "furl \<equiv> file_url env b c revision"
    and "files \<equiv> filter (\<lambda>k. k \<notin> special_keys) (map fst fkvs)"
  assumes "fetches env (change_url b c) (JObj kvs)"
    and "map_of kvs ''current_revision'' = Some revision"
    and "truthy revision"
    and "fetches env (file_url env b c revision) (JObj fkvs)"
  shows "fst (Repository_Compare env b c) = Inr (concat (map (alone env furl) files)) \<and>
         (\<forall>f. \<not> is_ignored_file f \<longrightarrow>
            (\<forall>m. http_get env (path_url furl f) = Raises m \<longrightarrow>
               alone env furl f =
                 [''======== file: '' @ f @ NL @ NL @ ''[Error] '' @ m @ NL @ NL]) \<and>
            (\<forall>resp. http_get env (path_url furl f) = Returns resp \<and>
                 400 \<le> status_code resp \<and> status_code resp < 600 \<longrightarrow>
               alone env furl f =
                 [''======== file: '' @ f @ NL @ NL @ ''[HTTP error] '' @
                  http_error_msg env resp @ NL @ NL]) \<and>
            (\<forall>resp e. http_get env (path_url furl f) = Returns resp \<and>
                 \<not> (400 \<le> status_code resp \<and> status_code resp < 600) \<and>
                 json_loads env (strip_gerrit_json (resp_text resp)) = Inl e \<longrightarrow>
               alone env furl f =
                 [''======== file: '' @ f @ NL @ NL @ ''[Error] '' @ ''Decode diff for '' @ f @
                  '' failed: '' @ e @ NL @ ''Raw: '' @ take 200 (resp_text resp) @ NL @ NL])) \<and>
         (\<forall>f reply.
            fst (Repository_Compare
                   (env\<lparr>http_get := (http_get env)(path_url furl f := reply)\<rparr>) b c) =
              Inr (concat (map (\<lambda>g. if g = f
                     then alone (env\<lparr>http_get := (http_get env)(path_url furl f := reply)\<rparr>) furl f
                     else alone env furl g) files)))"
proof (intro conjI allI impI)
  note p = assms(3-6)
  show "fst (Repository_Compare env b c) = Inr (concat (map (alone env furl) files))"
    unfolding Repository_Compare_eq[OF p] furl_def files_def by simp
  {
    fix f m
    assume "\<not> is_ignored_file f" and "http_get env (path_url furl f) = Raises m"
    then show "alone env furl f =
        [''======== file: '' @ f @ NL @ NL @ ''[Error] '' @ m @ NL @ NL]"
      by (simp add: alone_raises header_def)
  next
    fix f resp
    assume "\<not> is_ignored_file f"
      and "http_get env (path_url furl f) = Returns resp \<and>
        400 \<le> status_code resp \<and> status_code resp < 600"
    then show "alone env furl f =
        [''======== file: '' @ f @ NL @ NL @ ''[HTTP error] '' @ http_error_msg env resp @ NL @ NL]"
      by (simp add: alone_status header_def)
  next
    fix f resp e
    assume "\<not> is_ignored_file f"
      and "http_get env (path_url furl f) = Returns resp \<and>
        \<not> (400 \<le> status_code resp \<and> status_code resp < 600) \<and>
        json_loads env (strip_gerrit_json (resp_text resp)) = Inl e"
    then have "alone env furl f =
        [header f @ ''[Error] '' @ ''Decode diff for '' @ f @ '' failed: '' @ e @ NL @
           ''Raw: '' @ take 200 (resp_text resp) @ NL @ NL]"
      by (intro alone_decode) simp_all
    then show "alone env furl f =
        [''======== file: '' @ f @ NL @ NL @ ''[Error] '' @ ''Decode diff for '' @ f @
         '' failed: '' @ e @ NL @ ''Raw: '' @ take 200 (resp_text resp) @ NL @ NL]"
      by (simp add: header_def)
  next
    fix f reply
    define h where "h = (http_get env)(path_url furl f := reply)"
    have other: "h u = http_get env u" if "u \<noteq> path_url furl f" for u
      using that by (simp add: h_def)
    have "change_url b c \<noteq> path_url furl f"
      unfolding furl_def by (rule change_url_not_path_url)
    then have p1: "fetches (env\<lparr>http_get := h\<rparr>) (change_url b c) (JObj kvs)"
      using p(1) by (simp add: fetches_upd other)
    have fu: "file_url (env\<lparr>http_get := h\<rparr>) b c revision = furl"
      by (simp add: file_url_upd furl_def)
    have "furl \<noteq> path_url furl f" by (rule file_url_not_path_url)
    then have p4: "fetches (env\<lparr>http_get := h\<rparr>)
        (file_url (env\<lparr>http_get := h\<rparr>) b c revision) (JObj fkvs)"
      unfolding fu using p(4) by (simp add: fetches_upd other furl_def)
    have r: "fst (Repository_Compare (env\<lparr>http_get := h\<rparr>) b c) =
        Inr (concat (map (alone (env\<lparr>http_get := h\<rparr>) furl) files))"
      unfolding Repository_Compare_eq[OF p1 p(2,3) p4] fu files_def by simp
    have "alone (env\<lparr>http_get := h\<rparr>) furl g = alone env furl g" if "g \<noteq> f" for g
    proof (rule alone_upd)
      from that have "path_url furl g \<noteq> path_url furl f" using path_url_inj by blast
      then show "h (path_url furl g) = http_get env (path_url furl g)" by (rule other)
    qed
    then have "map (alone (env\<lparr>http_get := h\<rparr>) furl) files =
        map (\<lambda>g. if g = f then alone (env\<lparr>http_get := h\<rparr>) furl f else alone env furl g) files"
      by simp
    with r show "fst (Repository_Compare
                   (env\<lparr>http_get := (http_get env)(path_url furl f := reply)\<rparr>) b c) =
              Inr (concat (map (\<lambda>g. if g = f
                     then alone (env\<lparr>http_get := (http_get env)(path_url furl f := reply)\<rparr>) furl f
                     else alone env furl g) files))"
      unfolding h_def by simp
  }
qed

text \<open>
  A witness: against \<open>demo_env\<close> the diff of \<open>gone.c\<close> is answered with status 404; its
  entry is the error message, and the run returns the entries of all three files.
\<close>

theorem per_file_error_isolation_witness:
  "fetches demo_env (change_url ''g'' ''42'') (JObj demo_change) \<and>
   map_of demo_change ''current_revision'' = Some (JStr ''r1'') \<and>
   truthy (JStr ''r1'') \<and>
   fetches demo_env (file_url demo_env ''g'' ''42'' (JStr ''r1'')) (JObj demo_files) \<and>
   \<not> is_ignored_file ''gone.c'' \<and>
   http_get demo_env ''g/a/changes/42/revisions/r1/files/gone.c/diff'' =
     Returns \<lparr>status_code = 404, resp_text = ''Not found''\<rparr> \<and>
   alone demo_env ''g/a/changes/42/revisions/r1/files'' ''gone.c'' =
     [''======== file: gone.c\<newline>\<newline>[HTTP error] 404 Client Error\<newline>\<newline>''] \<and>
   fst (Repository_Compare demo_env ''g'' ''42'') = Inr demo_results"
proof -
  let ?resp = "\<lparr>status_code = 404, resp_text = ''Not found''\<rparr>"
  have t: "truthy (JStr ''r1'')" by simp
  have i: "\<not> is_ignored_file ''gone.c''" by code_simp
  have u: "path_url (file_url demo_env ''g'' ''42'' (JStr ''r1'')) ''gone.c'' =
      ''g/a/changes/42/revisions/r1/files/gone.c/diff''"
    by code_simp
  have g: "http_get demo_env ''g/a/changes/42/revisions/r1/files/gone.c/diff'' = Returns ?resp"
    by (simp add: demo_env_def)
  have s: "http_get demo_env (path_url (file_url demo_env ''g'' ''42'' (JStr ''r1'')) ''gone.c'') =
      Returns ?resp \<and> 400 \<le> status_code ?resp \<and> status_code ?resp < 600"
    unfolding u using g by simp
  note w = per_file_error_isolation[OF demo_change_fetch demo_revision t demo_files_fetch]
  from w[THEN conjunct2, THEN conjunct1, rule_format, OF i, THEN conjunct2, THEN conjunct1,
      rule_format, OF s]
  have "alone demo_env (file_url demo_env ''g'' ''42'' (JStr ''r1'')) ''gone.c'' =
      [''======== file: '' @ ''gone.c'' @ NL @ NL @ ''[HTTP error] '' @
       http_error_msg demo_env ?resp @ NL @ NL]" .
  then have a: "alone demo_env ''g/a/changes/42/revisions/r1/files'' ''gone.c'' =
      [''======== file: gone.c\<newline>\<newline>[HTTP error] 404 Client Error\<newline>\<newline>'']"
    unfolding demo_file_url by (simp add: demo_env_def)
  have r: "fst (Repository_Compare demo_env ''g'' ''42'') = Inr demo_results"
    by (simp add: demo_run)
  from demo_change_fetch demo_revision t demo_files_fetch i g a r show ?thesis by blast
qed

text \<open>
  Claim C10. When \<open>Repository_Compare\<close> returns a list, its entries correspond one to
  one, in order, to the keys of the file-list response that are neither special nor
  ignored; the entry of a file is not empty and begins with \<open>======== file: \<close> followed
  by the path of that file.
\<close>

theorem entries_headed_in_order:
  assumes "fst (Repository_Compare env b c) = Inr results"
  shows "\<exists>kvs revision fkvs.
           fetches env (change_url b c) (JObj kvs) \<and>
           map_of kvs ''current_revision'' = Some revision \<and>
           fetches env (file_url env b c revision) (JObj fkvs) \<and>
           list_all2 (\<lambda>f r. r \<noteq> [] \<and> prefix (''======== file: '' @ f) r)
             (filter (\<lambda>f. \<not> is_ignored_file f)
                (filter (\<lambda>k. k \<notin> special_keys) (map fst fkvs)))
             results"
proof (cases rule: Repository_Compare_cases[of env b c])
  case (change_fails e)
  with assms show ?thesis by simp
next
  case (files_fail e kvs revision)
  with assms show ?thesis by simp
next
  case (runs kvs revision fkvs)
  let ?files = "filter (\<lambda>k. k \<notin> special_keys) (map fst fkvs)"
  have "results = concat (map (alone env (file_url env b c revision)) ?files)"
    using assms unfolding Repository_Compare_eq[OF runs] by simp
  then have "list_all2 (\<lambda>f r. prefix (header f) r)
      (filter (\<lambda>f. \<not> is_ignored_file f) ?files) results"
    using entries_in_order[where env = env and furl = "file_url env b c revision" and fs = ?files]
    by simp
  then have "list_all2 (\<lambda>f r. r \<noteq> [] \<and> prefix (''======== file: '' @ f) r)
      (filter (\<lambda>f. \<not> is_ignored_file f) ?files) results"
    by (rule list_all2_mono) (rule header_prefix)
  with runs(1,2,4) show ?thesis by blast
qed

text \<open>A witness: the three entries of the run against \<open>demo_env\<close>.\<close>

theorem entries_headed_in_order_witness:
  "fst (Repository_Compare demo_env ''g'' ''42'') = Inr demo_results \<and>
   list_all2 (\<lambda>f r. r \<noteq> [] \<and> prefix (''======== file: '' @ f) r)
     [''src/main.c'', ''gone.c'', ''bad.c''] demo_results"
proof -
  have r: "fst (Repository_Compare demo_env ''g'' ''42'') = Inr demo_results"
    by (simp add: demo_run)
  from entries_headed_in_order[OF r] obtain kvs revision fkvs where
    c: "fetches demo_env (change_url ''g'' ''42'') (JObj kvs)" and
    v: "map_of kvs ''current_revision'' = Some revision" and
    f: "fetches demo_env (file_url demo_env ''g'' ''42'' revision) (JObj fkvs)" and
    l: "list_all2 (\<lambda>f r. r \<noteq> [] \<and> prefix (''======== file: '' @ f) r)
          (filter (\<lambda>f. \<not> is_ignored_file f)
             (filter (\<lambda>k. k \<notin> special_keys) (map fst fkvs)))
          demo_results"
    by blast
  have "revision = JStr ''r1''"
    using demo_change_fetch demo_revision c v by (rule revision_unique)
  with f have "fetches demo_env (file_url demo_env ''g'' ''42'' (JStr ''r1'')) (JObj fkvs)"
    by simp
  then have "JObj fkvs = JObj demo_files"
    using demo_files_fetch by (rule fetches_fun)
  then have k: "fkvs = demo_files" by simp
  have "filter (\<lambda>f. \<not> is_ignored_file f)
      (filter (\<lambda>k. k \<notin> special_keys) (map fst demo_files)) =
      [''src/main.c'', ''gone.c'', ''bad.c'']"
    by code_simp
  with l k r show ?thesis by simp
qed

end
